theory Spec2Isabelle
  imports Complex_Main "HOL-Library.Word" "HOL-Library.Log_Nat"
begin

section \<open>The batch image loader of \<^verbatim>\<open>multi_image_loader.py\<close>\<close>

text \<open>
  The module has two helpers, \<^verbatim>\<open>pil_to_comfy_tensor\<close> and \<^verbatim>\<open>resize_pil\<close>, and one
  callback, \<^verbatim>\<open>MultiImageDragDropLoader.load\<close>. Everything else it touches belongs to
  its collaborators: the host's \<^verbatim>\<open>folder_paths\<close>, \<^verbatim>\<open>os.path\<close>, \<^verbatim>\<open>json\<close>, the image
  library and the tensor library. The collaborators are a parameter of the model (the
  record \<open>host\<close>); the module's own control flow is translated line by line.

  Strings are \<open>string\<close> (ASCII); an exception is a value \<open>Inl e\<close>.
\<close>

subsection \<open>Python values and exceptions\<close>

text \<open>
  What the widget may hand over as \<^verbatim>\<open>images\<close>, and what \<^verbatim>\<open>json.loads\<close> may return.
  \<open>PObj c\<close> is an object of any other class, named \<open>c\<close>.
\<close>

datatype pyval =
    PNone
  | PBool bool
  | PInt int
  | PStr string
  | PList "pyval list"
  | PDict "(pyval \<times> pyval) list"
  | PObj string

datatype pytype =
    NoneType | BoolT | IntT | StrT | ListT | DictT | ClassT string

fun py_type :: "pyval \<Rightarrow> pytype" where
  "py_type PNone = NoneType"
| "py_type (PBool _) = BoolT"
| "py_type (PInt _) = IntT"
| "py_type (PStr _) = StrT"
| "py_type (PList _) = ListT"
| "py_type (PDict _) = DictT"
| "py_type (PObj c) = ClassT c"

text \<open>
  The pieces of a formatted message: literal text, the rendering of a type object
  (\<^verbatim>\<open>{type(x)}\<close>) and the rendering of a value (\<^verbatim>\<open>{x}\<close>).
\<close>

datatype part = Text string | TypeRepr pytype | ValueRepr pyval

datatype error =
    ValueError string
  | TypeError "part list"
  | FileNotFoundError string
  | IndexError string
  | RuntimeError string
  | JSONDecodeError string
  | OSError string

subsection \<open>Images and tensors\<close>

datatype resample = NEAREST | BILINEAR | BICUBIC | LANCZOS

type_synonym rgb = "8 word \<times> 8 word \<times> 8 word"

text \<open>
  The collaborators. \<open>'img\<close> is the image library's image object.
  \<open>img_size\<close> is \<^verbatim>\<open>img.size\<close>, a (width, height) pair; \<open>img_rgb img x y\<close> is the pixel at
  column \<open>x\<close>, row \<open>y\<close> of \<^verbatim>\<open>img.convert("RGB")\<close>; \<open>img_resize\<close> is \<^verbatim>\<open>img.resize\<close>.
\<close>

record 'img host =
  json_loads :: "string \<Rightarrow> error + pyval"
  get_annotated_filepath :: "string \<Rightarrow> string"
  get_input_directory :: "string"
  path_join :: "string \<Rightarrow> string \<Rightarrow> string"
  path_exists :: "string \<Rightarrow> bool"
  image_open :: "string \<Rightarrow> error + 'img"
  img_size :: "'img \<Rightarrow> nat \<times> nat"
  img_rgb :: "'img \<Rightarrow> nat \<Rightarrow> nat \<Rightarrow> rgb"
  img_resize :: "'img \<Rightarrow> nat \<times> nat \<Rightarrow> resample \<Rightarrow> 'img"

text \<open>
  A tensor (or array): its shape and its elements in row-major order. An element is a
  binary32 number, represented by the rational it denotes.
\<close>

record tensor =
  shape :: "nat list"
  data :: "rat list"

text \<open>What \<^verbatim>\<open>pil_to_comfy_tensor\<close> may be handed: an image, or anything else.\<close>

datatype 'img pyobj = PilImage 'img | NotImage pyval

subsection \<open>Binary32 division by 255\<close>

text \<open>
  \<open>rne a b\<close> is the integer nearest to \<open>a / b\<close>, ties to even.
\<close>

definition rne :: "nat \<Rightarrow> nat \<Rightarrow> nat" where
  "rne a b =
     (let q = a div b; r = a mod b
      in if b < 2 * r \<or> (2 * r = b \<and> odd q) then q + 1 else q)"

text \<open>
  \<^verbatim>\<open>np.float32(n) / 255.0\<close> for a channel value \<open>n \<le> 255\<close>: the quotient rounded to a
  24-bit significand. With \<open>s = 32 - floorlog 2 n\<close> the scaled quotient \<open>n * 2^s / 255\<close>
  lies between \<open>2^23\<close> and \<open>2^24\<close>, so rounding it to an integer is rounding the
  quotient to binary32.
\<close>

definition f32_div255 :: "nat \<Rightarrow> rat" where
  "f32_div255 n =
     (let s = 32 - floorlog 2 n
      in of_nat (rne (n * 2 ^ s) 255) / 2 ^ s)"

subsection \<open>\<^verbatim>\<open>pil_to_comfy_tensor\<close>\<close>

definition channels :: "rgb \<Rightarrow> rat list" where
  "channels p = (case p of (r, g, b) \<Rightarrow>
     [f32_div255 (unat r), f32_div255 (unat g), f32_div255 (unat b)])"

text \<open>
  \<^verbatim>\<open>np.array(img.convert("RGB")).astype(np.float32) / 255.0\<close>: an array of shape
  (H, W, 3), row after row.
\<close>

definition rgb_array :: "'img host \<Rightarrow> 'img \<Rightarrow> tensor" where
  "rgb_array h img =
     (case img_size h img of (w, ht) \<Rightarrow>
        \<lparr> shape = [ht, w, 3],
          data = concat (map (\<lambda>y. concat (map (\<lambda>x. channels (img_rgb h img x y)) [0..<w])) [0..<ht]) \<rparr>)"

definition unsqueeze0 :: "tensor \<Rightarrow> tensor" where
  "unsqueeze0 t = t\<lparr> shape := 1 # shape t \<rparr>"

fun pil_to_comfy_tensor :: "'img host \<Rightarrow> 'img pyobj \<Rightarrow> error + tensor" where
  "pil_to_comfy_tensor h (NotImage v) =
     Inl (TypeError [Text ''Expected PIL.Image.Image, got '', TypeRepr (py_type v)])"
| "pil_to_comfy_tensor h (PilImage img) = Inr (unsqueeze0 (rgb_array h img))"

subsection \<open>\<^verbatim>\<open>resize_pil\<close>\<close>

definition resample_table :: "string \<rightharpoonup> resample" where
  "resample_table =
     [''nearest'' \<mapsto> NEAREST, ''bilinear'' \<mapsto> BILINEAR,
      ''bicubic'' \<mapsto> BICUBIC, ''lanczos'' \<mapsto> LANCZOS]"

definition resize_pil :: "'img host \<Rightarrow> 'img \<Rightarrow> nat \<times> nat \<Rightarrow> string \<Rightarrow> 'img" where
  "resize_pil h img size_wh mode =
     (let resample = (case resample_table mode of Some r \<Rightarrow> r | None \<Rightarrow> LANCZOS)
      in img_resize h img size_wh resample)"

subsection \<open>\<^verbatim>\<open>torch.cat(ts, dim=0)\<close>\<close>

text \<open>
  Concatenation along the first axis needs at least one tensor, each of at least one
  dimension, all agreeing on the other dimensions.
\<close>

definition torch_cat :: "tensor list \<Rightarrow> error + tensor" where
  "torch_cat ts =
     (case ts of
        [] \<Rightarrow> Inl (RuntimeError ''torch.cat(): expected a non-empty list of Tensors'')
      | t # _ \<Rightarrow>
          if (\<forall>u \<in> set ts. shape u \<noteq> [] \<and> tl (shape u) = tl (shape t))
          then Inr \<lparr> shape = sum_list (map (\<lambda>u. hd (shape u)) ts) # tl (shape t),
                    data = concat (map data ts) \<rparr>
          else Inl (RuntimeError ''Sizes of tensors must match except in dimension 0''))"

text \<open>\<open>slice0 t i\<close> is \<^verbatim>\<open>t[i:i+1]\<close>, the \<open>i\<close>-th entry of a batch with its batch axis kept.\<close>

definition slice0 :: "tensor \<Rightarrow> nat \<Rightarrow> tensor" where
  "slice0 t i =
     (let n = prod_list (tl (shape t))
      in \<lparr> shape = 1 # tl (shape t), data = take n (drop (i * n) (data t)) \<rparr>)"

subsection \<open>\<^verbatim>\<open>load\<close>: the input normalizer (lines 85 to 100)\<close>

text \<open>
  \<^verbatim>\<open>str.strip()\<close> removes the characters for which \<^verbatim>\<open>str.isspace\<close> holds; among the
  ASCII characters these are the codes 9 to 13 and 28 to 32.
\<close>

definition isspace :: "char \<Rightarrow> bool" where
  "isspace c \<longleftrightarrow> (let n = (of_char c :: nat) in (9 \<le> n \<and> n \<le> 13) \<or> (28 \<le> n \<and> n \<le> 32))"

definition strip :: "string \<Rightarrow> string" where
  "strip s = rev (dropWhile isspace (rev (dropWhile isspace s)))"

definition startswith :: "string \<Rightarrow> string \<Rightarrow> bool" where
  "startswith s p \<longleftrightarrow> take (length p) s = p"

definition endswith :: "string \<Rightarrow> string \<Rightarrow> bool" where
  "endswith s p \<longleftrightarrow> length p \<le> length s \<and> drop (length s - length p) s = p"

fun is_str :: "pyval \<Rightarrow> bool" where
  "is_str (PStr _) = True"
| "is_str _ = False"

fun str_of :: "pyval \<Rightarrow> string" where
  "str_of (PStr s) = s"
| "str_of _ = []"

text \<open>Line 99: the value must be a list, and every element of it a string.\<close>

definition check_list_str :: "pyval \<Rightarrow> error + string list" where
  "check_list_str images =
     (case images of
        PList xs \<Rightarrow>
          if list_all is_str xs then Inr (map str_of xs)
          else Inl (TypeError [Text ''`images` must be a list[str] (or JSON string). Got: '',
                               TypeRepr (py_type images), Text '' '', ValueRepr images])
      | _ \<Rightarrow> Inl (TypeError [Text ''`images` must be a list[str] (or JSON string). Got: '',
                             TypeRepr (py_type images), Text '' '', ValueRepr images]))"

definition normalize_images :: "'img host \<Rightarrow> pyval \<Rightarrow> error + string list" where
  "normalize_images h images =
     (case images of
        PNone \<Rightarrow> Inl (ValueError ''No images provided.'')
      | PStr str \<Rightarrow>
          (let s = strip str
           in if startswith s ''['' \<and> endswith s '']''
              then (case json_loads h s of
                      Inl e \<Rightarrow> Inl e
                    | Inr v \<Rightarrow> check_list_str v)
              else check_list_str (PList [PStr str]))
      | _ \<Rightarrow> check_list_str images)"

subsection \<open>\<^verbatim>\<open>load\<close>: the path resolver and the decoder (lines 103 to 114)\<close>

definition resolve_path :: "'img host \<Rightarrow> string \<Rightarrow> error + string" where
  "resolve_path h name =
     (let img_path = get_annotated_filepath h name
      in if \<not> path_exists h img_path
         then (let img_path2 = path_join h (get_input_directory h) name
               in if path_exists h img_path2 then Inr img_path2
                  else Inl (FileNotFoundError
                         (''Image not found: '' @ name @ '' (looked for '' @ img_path @ '')'')))
         else Inr img_path)"

fun open_images :: "'img host \<Rightarrow> string list \<Rightarrow> error + 'img list" where
  "open_images h [] = Inr []"
| "open_images h (name # names) =
     (case resolve_path h name of
        Inl e \<Rightarrow> Inl e
      | Inr img_path \<Rightarrow>
          (case image_open h img_path of
             Inl e \<Rightarrow> Inl e
           | Inr img \<Rightarrow>
               (case open_images h names of
                  Inl e \<Rightarrow> Inl e
                | Inr pil_images \<Rightarrow> Inr (img # pil_images))))"

subsection \<open>\<^verbatim>\<open>load\<close>: the per-image list and the batch (lines 116 to 138)\<close>

text \<open>A list comprehension whose body may raise: the first exception ends it.\<close>

fun comprehend :: "('a \<Rightarrow> error + 'b) \<Rightarrow> 'a list \<Rightarrow> error + 'b list" where
  "comprehend f [] = Inr []"
| "comprehend f (x # xs) =
     (case f x of
        Inl e \<Rightarrow> Inl e
      | Inr y \<Rightarrow> (case comprehend f xs of Inl e \<Rightarrow> Inl e | Inr ys \<Rightarrow> Inr (y # ys)))"

text \<open>\<^verbatim>\<open>(t.shape[1], t.shape[2])\<close>; indexing a shorter shape raises.\<close>

definition shape_hw :: "tensor \<Rightarrow> error + nat \<times> nat" where
  "shape_hw t =
     (if 2 < length (shape t) then Inr (shape t ! 1, shape t ! 2)
      else Inl (IndexError ''tuple index out of range''))"

definition different_sizes :: string where
  "different_sizes =
     ''Images have different sizes; enable resize_to_first=True or use the image_list output.''"

definition build_batch ::
  "'img host \<Rightarrow> 'img list \<Rightarrow> tensor list \<Rightarrow> bool \<Rightarrow> string \<Rightarrow> error + tensor" where
  "build_batch h pil_images image_list resize_to_first resize_mode =
     (if length pil_images = 1
      then (case image_list of
              [] \<Rightarrow> Inl (IndexError ''list index out of range'')
            | t # _ \<Rightarrow> Inr t)
      else if resize_to_first
      then (case pil_images of
              [] \<Rightarrow> Inl (IndexError ''list index out of range'')
            | img0 # _ \<Rightarrow>
                (case img_size h img0 of (w0, h0) \<Rightarrow>
                   (let resized = map (\<lambda>img. resize_pil h img (w0, h0) resize_mode) pil_images
                    in case comprehend (\<lambda>img. pil_to_comfy_tensor h (PilImage img)) resized of
                         Inl e \<Rightarrow> Inl e
                       | Inr batch_tensors \<Rightarrow> torch_cat batch_tensors)))
      else (case comprehend shape_hw image_list of
              Inl e \<Rightarrow> Inl e
            | Inr shapes \<Rightarrow>
                if card (set shapes) \<noteq> 1 then Inl (ValueError different_sizes)
                else torch_cat image_list))"

definition load ::
  "'img host \<Rightarrow> pyval \<Rightarrow> bool \<Rightarrow> string \<Rightarrow> error + (tensor \<times> tensor list \<times> string list)" where
  "load h images resize_to_first resize_mode =
     (case normalize_images h images of
        Inl e \<Rightarrow> Inl e
      | Inr names \<Rightarrow>
          (case open_images h names of
             Inl e \<Rightarrow> Inl e
           | Inr pil_images \<Rightarrow>
               (case comprehend (\<lambda>img. pil_to_comfy_tensor h (PilImage img)) pil_images of
                  Inl e \<Rightarrow> Inl e
                | Inr image_list \<Rightarrow>
                    (case build_batch h pil_images image_list resize_to_first resize_mode of
                       Inl e \<Rightarrow> Inl e
                     | Inr image_batch \<Rightarrow> Inr (image_batch, image_list, names)))))"

text \<open>The tensor of one image, as line 117 builds it.\<close>

definition image_tensor :: "'img host \<Rightarrow> 'img \<Rightarrow> tensor" where
  "image_tensor h img = unsqueeze0 (rgb_array h img)"

text \<open>Channel \<open>k\<close> (0, 1 or 2) of a pixel, as a number from 0 to 255.\<close>

definition channel :: "rgb \<Rightarrow> nat \<Rightarrow> nat" where
  "channel p k = (case p of (r, g, b) \<Rightarrow> unat ([r, g, b] ! k))"

subsection \<open>The image library's contract\<close>

text \<open>
  The one fact about \<^verbatim>\<open>Image.resize\<close> that the batch depends on: the result has the size
  that was asked for.
\<close>

definition resize_contract :: "'img host \<Rightarrow> bool" where
  "resize_contract h \<longleftrightarrow> (\<forall>img size_wh r. img_size h (img_resize h img size_wh r) = size_wh)"

subsection \<open>A small host to run the loader on\<close>

text \<open>
  Images of one colour: a size and a pixel. Resizing one, with any filter, keeps the
  colour. The JSON reader knows arrays of strings without escapes.
\<close>

type_synonym solid = "(nat \<times> nat) \<times> rgb"

datatype jstate = JStart | JFirst | JItem | JInStr | JAfter | JEnd

fun json_scan :: "jstate \<Rightarrow> string list \<Rightarrow> string \<Rightarrow> string \<Rightarrow> string list option" where
  "json_scan JEnd acc cur [] = Some acc"
| "json_scan st acc cur [] = None"
| "json_scan JStart acc cur (c # cs) =
     (if c = CHR ''['' then json_scan JFirst acc cur cs
      else if isspace c then json_scan JStart acc cur cs else None)"
| "json_scan JFirst acc cur (c # cs) =
     (if c = CHR 0x22 then json_scan JInStr acc [] cs
      else if c = CHR '']'' then json_scan JEnd acc cur cs
      else if isspace c then json_scan JFirst acc cur cs else None)"
| "json_scan JItem acc cur (c # cs) =
     (if c = CHR 0x22 then json_scan JInStr acc [] cs
      else if isspace c then json_scan JItem acc cur cs else None)"
| "json_scan JInStr acc cur (c # cs) =
     (if c = CHR 0x22 then json_scan JAfter (acc @ [cur]) [] cs
      else if c = CHR 0x5C \<or> (of_char c :: nat) < 32 then None
      else json_scan JInStr acc (cur @ [c]) cs)"
| "json_scan JAfter acc cur (c # cs) =
     (if c = CHR '','' then json_scan JItem acc cur cs
      else if c = CHR '']'' then json_scan JEnd acc cur cs
      else if isspace c then json_scan JAfter acc cur cs else None)"
| "json_scan JEnd acc cur (c # cs) =
     (if isspace c then json_scan JEnd acc cur cs else None)"

definition demo_json_loads :: "string \<Rightarrow> error + pyval" where
  "demo_json_loads s =
     (case json_scan JStart [] [] s of
        None \<Rightarrow> Inl (JSONDecodeError ''Expecting value'')
      | Some xs \<Rightarrow> Inr (PList (map PStr xs)))"

definition demo_files :: "(string \<times> solid) list" where
  "demo_files =
     [(''/annot/a.png'', ((2, 2), (255, 0, 0))),
      (''/in/b.png'', ((3, 1), (0, 128, 255))),
      (''/annot/c.png'', ((2, 2), (1, 2, 3)))]"

definition demo_host :: "solid host" where
  "demo_host =
     \<lparr> json_loads = demo_json_loads,
       get_annotated_filepath = (\<lambda>name. ''/annot/'' @ name),
       get_input_directory = ''/in'',
       path_join = (\<lambda>d name. d @ ''/'' @ name),
       path_exists = (\<lambda>p. map_of demo_files p \<noteq> None),
       image_open = (\<lambda>p. case map_of demo_files p of
                            None \<Rightarrow> Inl (OSError p)
                          | Some img \<Rightarrow> Inr img),
       img_size = fst,
       img_rgb = (\<lambda>img x y. snd img),
       img_resize = (\<lambda>img size_wh r. (size_wh, snd img)) \<rparr>"

text \<open>
  The same host with a resize that shows which filter it was given: the result has the
  size asked for and one colour, and the colour tells the filter.
\<close>

fun filter_colour :: "resample \<Rightarrow> rgb" where
  "filter_colour NEAREST = (0, 0, 0)"
| "filter_colour BILINEAR = (1, 1, 1)"
| "filter_colour BICUBIC = (2, 2, 2)"
| "filter_colour LANCZOS = (3, 3, 3)"

definition probe_host :: "solid host" where
  "probe_host = demo_host \<lparr> img_resize := (\<lambda>img size_wh r. (size_wh, filter_colour r)) \<rparr>"


section \<open>Facts about the helpers\<close>

subsection \<open>Comprehensions\<close>

lemma comprehend_total: "comprehend (\<lambda>x. Inr (f x)) xs = Inr (map f xs)"
  by (induction xs) simp_all

lemma comprehend_map: "comprehend f (map g xs) = comprehend (\<lambda>x. f (g x)) xs"
  by (induction xs) (simp_all split: sum.splits)

lemma image_list_eq:
  "comprehend (\<lambda>img. pil_to_comfy_tensor h (PilImage img)) imgs = Inr (map (image_tensor h) imgs)"
  by (simp add: image_tensor_def comprehend_total)

subsection \<open>Blocks of one length\<close>

lemma length_concat_uniform:
  "(\<And>x. x \<in> set xs \<Longrightarrow> length (f x) = k) \<Longrightarrow> length (concat (map f xs)) = length xs * k"
  by (induction xs) simp_all

lemma nth_concat_uniform:
  "(\<And>x. x \<in> set xss \<Longrightarrow> length x = k) \<Longrightarrow> i < length xss \<Longrightarrow> j < k \<Longrightarrow>
     concat xss ! (i * k + j) = xss ! i ! j"
proof (induction xss arbitrary: i)
  case Nil
  then show ?case by simp
next
  case (Cons xs xss)
  show ?case
  proof (cases i)
    case 0
    with Cons.prems show ?thesis by (simp add: nth_append)
  next
    case (Suc i')
    have len: "length xs = k" using Cons.prems(1) by simp
    have "concat (xs # xss) ! (i * k + j) = concat xss ! (i' * k + j)"
      using Suc len by (simp add: nth_append)
    also have "\<dots> = xss ! i' ! j"
      using Cons.IH [of i'] Cons.prems Suc by simp
    finally show ?thesis using Suc by simp
  qed
qed

lemma take_drop_concat_uniform:
  "(\<And>x. x \<in> set xss \<Longrightarrow> length x = k) \<Longrightarrow> i < length xss \<Longrightarrow>
     take k (drop (i * k) (concat xss)) = xss ! i"
proof (induction xss arbitrary: i)
  case Nil
  then show ?case by simp
next
  case (Cons xs xss)
  show ?case
  proof (cases i)
    case 0
    with Cons.prems show ?thesis by simp
  next
    case (Suc i')
    have len: "length xs = k" using Cons.prems(1) by simp
    show ?thesis using Suc len Cons.IH [of i'] Cons.prems by simp
  qed
qed

subsection \<open>The tensor of an image\<close>

lemma shape_image_tensor:
  "shape (image_tensor h img) = [1, snd (img_size h img), fst (img_size h img), 3]"
  by (simp add: image_tensor_def unsqueeze0_def rgb_array_def split: prod.splits)

lemma shape_hw_image_tensor:
  "shape_hw (image_tensor h img) = Inr (snd (img_size h img), fst (img_size h img))"
  by (simp add: shape_hw_def shape_image_tensor)

lemma comprehend_shape_hw:
  "comprehend shape_hw (map (image_tensor h) imgs) =
     Inr (map (\<lambda>img. (snd (img_size h img), fst (img_size h img))) imgs)"
  by (simp add: comprehend_map shape_hw_image_tensor comprehend_total)

lemma length_channels: "length (channels p) = 3"
  by (simp add: channels_def split: prod.splits)

lemma length_data_image_tensor:
  "length (data (image_tensor h img)) = snd (img_size h img) * (fst (img_size h img) * 3)"
  by (simp add: image_tensor_def unsqueeze0_def rgb_array_def length_concat_uniform length_channels
           split: prod.splits)

subsection \<open>Concatenating single-image tensors\<close>

lemma torch_cat_unit:
  assumes "ts \<noteq> []" and "\<And>u. u \<in> set ts \<Longrightarrow> shape u = 1 # rest"
  shows "torch_cat ts = Inr \<lparr> shape = length ts # rest, data = concat (map data ts) \<rparr>"
proof -
  have "sum_list (map (\<lambda>u. hd (shape u)) ts) = length ts"
    using assms(2) by (induction ts) simp_all
  then show ?thesis
    using assms by (cases ts) (simp_all add: torch_cat_def)
qed

subsection \<open>Rounding to binary32\<close>

lemma rne_near:
  assumes "0 < b"
  shows "2 * (b * rne a b) \<le> 2 * a + b" and "2 * a \<le> 2 * (b * rne a b) + b"
proof -
  define q r where "q = a div b" and "r = a mod b"
  have a: "a = b * q + r" and r: "r < b"
    using assms by (simp_all add: q_def r_def)
  define m where "m = rne a b"
  have up: "m = (if b < 2 * r \<or> (2 * r = b \<and> odd q) then q + 1 else q)"
    by (simp add: m_def rne_def q_def r_def Let_def)
  have "2 * (b * m) \<le> 2 * a + b"
    using a r by (auto simp: up algebra_simps)
  then show "2 * (b * rne a b) \<le> 2 * a + b" by (simp add: m_def)
  have "2 * a \<le> 2 * (b * m) + b"
    using a r by (auto simp: up algebra_simps)
  then show "2 * a \<le> 2 * (b * rne a b) + b" by (simp add: m_def)
qed

lemma rne_le:
  assumes "0 < b" and "a \<le> b * m"
  shows "rne a b \<le> m"
proof (rule ccontr)
  assume "\<not> rne a b \<le> m"
  then have "m + 1 \<le> rne a b" by simp
  then have "b * (m + 1) \<le> b * rne a b" by (rule mult_le_mono2)
  then have "2 * (b * m) + 2 * b \<le> 2 * (b * rne a b)" by (simp add: algebra_simps)
  with rne_near(1) [OF assms(1), of a] assms show False by simp
qed

lemma rne_ge:
  assumes "0 < b" and "b * m \<le> a"
  shows "m \<le> rne a b"
proof (rule ccontr)
  assume "\<not> m \<le> rne a b"
  then have "rne a b + 1 \<le> m" by simp
  then have "b * (rne a b + 1) \<le> b * m" by (rule mult_le_mono2)
  then have "2 * (b * rne a b) + 2 * b \<le> 2 * (b * m)" by (simp add: algebra_simps)
  with rne_near(2) [OF assms(1), of a] assms show False by simp
qed

lemma floorlog_le_8: "n \<le> 255 \<Longrightarrow> floorlog 2 n \<le> 8"
proof -
  assume "n \<le> 255"
  then have "floorlog 2 n \<le> floorlog 2 255" by (rule floorlog_mono)
  also have "floorlog 2 (255::nat) = 8" by (simp add: compute_floorlog)
  finally show ?thesis .
qed

lemma f32_div255_range:
  assumes "n \<le> 255"
  shows "0 \<le> f32_div255 n" and "f32_div255 n \<le> 1"
proof -
  define s where "s = 32 - floorlog 2 n"
  have f: "f32_div255 n = of_nat (rne (n * 2 ^ s) 255) / 2 ^ s"
    by (simp add: f32_div255_def s_def Let_def)
  show "0 \<le> f32_div255 n" by (simp add: f)
  have "n * 2 ^ s \<le> 255 * 2 ^ s" using assms by simp
  then have "rne (n * 2 ^ s) 255 \<le> 2 ^ s" by (intro rne_le) simp_all
  then have "(of_nat (rne (n * 2 ^ s) 255) :: rat) \<le> of_nat (2 ^ s)"
    by (simp only: of_nat_le_iff)
  then show "f32_div255 n \<le> 1" by (simp add: f)
qed

lemma f32_div255_close:
  assumes "n \<le> 255"
  shows "\<bar>f32_div255 n - of_nat n / 255\<bar> \<le> 1 / 2 ^ 25"
proof -
  define s where "s = 32 - floorlog 2 n"
  define m where "m = rne (n * 2 ^ s) 255"
  have f: "f32_div255 n = of_nat m / 2 ^ s"
    by (simp add: f32_div255_def s_def m_def Let_def)
  have s: "24 \<le> s" using floorlog_le_8 [OF assms] by (simp add: s_def)
  have n1: "2 * (255 * m) \<le> 2 * (n * 2 ^ s) + 255" and n2: "2 * (n * 2 ^ s) \<le> 2 * (255 * m) + 255"
    unfolding m_def by (rule rne_near; simp)+
  have r1: "2 * (255 * (of_nat m :: rat)) \<le> 2 * (of_nat n * 2 ^ s) + 255"
    using n1 by (metis (mono_tags, lifting) of_nat_le_iff of_nat_add of_nat_mult of_nat_numeral of_nat_power)
  have r2: "2 * (of_nat n * 2 ^ s) \<le> 2 * (255 * (of_nat m :: rat)) + 255"
    using n2 by (metis (mono_tags, lifting) of_nat_le_iff of_nat_add of_nat_mult of_nat_numeral of_nat_power)
  have "\<bar>of_nat m / 2 ^ s - of_nat n / 255\<bar> = \<bar>255 * of_nat m - of_nat n * 2 ^ s\<bar> / (255 * 2 ^ s :: rat)"
    by (simp add: field_simps abs_divide)
  also have "\<dots> \<le> (255 / 2) / (255 * 2 ^ s)"
  proof (rule divide_right_mono)
    show "\<bar>255 * of_nat m - of_nat n * 2 ^ s\<bar> \<le> (255 / 2 :: rat)"
      using r1 r2 by linarith
    show "0 \<le> (255 * 2 ^ s :: rat)" by simp
  qed
  also have "\<dots> = 1 / 2 ^ (s + 1)" by simp
  also have "\<dots> \<le> 1 / 2 ^ 25"
    using s by (intro divide_left_mono power_increasing) simp_all
  finally show ?thesis by (simp add: f)
qed

lemma f32_div255_significand:
  assumes "1 \<le> n" "n \<le> 255"
  shows "2 ^ 23 \<le> rne (n * 2 ^ (32 - floorlog 2 n)) 255"
    and "rne (n * 2 ^ (32 - floorlog 2 n)) 255 \<le> 2 ^ 24"
proof -
  define l where "l = floorlog 2 n"
  have l8: "l \<le> 8" using floorlog_le_8 [OF assms(2)] by (simp add: l_def)
  have l1: "1 \<le> l" using assms(1) by (simp add: l_def floorlog_def)
  have b: "2 ^ (l - 1) \<le> n" "n < 2 ^ l"
    using floorlog_bounds [of n 2] assms(1) by (simp_all add: l_def)
  have "32 - l = 24 + (8 - l)" using l8 by simp
  then have e: "(2::nat) ^ (32 - l) = 2 ^ 24 * 2 ^ (8 - l)"
    by (simp only: power_add)
  have "n * 2 ^ (8 - l) < 2 ^ l * 2 ^ (8 - l)" using b(2) by simp
  also have "\<dots> = 2 ^ 8" using l8 by (simp only: flip: power_add) simp
  finally have "n * 2 ^ (8 - l) \<le> 255" by simp
  then have "n * 2 ^ (8 - l) * 2 ^ 24 \<le> 255 * 2 ^ 24" by (rule mult_le_mono1)
  then have "n * 2 ^ (32 - l) \<le> 255 * 2 ^ 24" by (simp add: e mult_ac)
  then show "rne (n * 2 ^ (32 - floorlog 2 n)) 255 \<le> 2 ^ 24"
    unfolding l_def [symmetric] by (intro rne_le) simp_all
  have "(l - 1) + (32 - l) = 31" using l1 l8 by simp
  then have e2: "(2::nat) ^ (l - 1) * 2 ^ (32 - l) = 2 ^ 31"
    by (simp only: flip: power_add)
  have "2 ^ (l - 1) * 2 ^ (32 - l) \<le> n * 2 ^ (32 - l)" using b(1) by (rule mult_le_mono1)
  then have "(2::nat) ^ 31 \<le> n * 2 ^ (32 - l)" by (simp only: e2)
  moreover have "255 * 2 ^ 23 \<le> (2::nat) ^ 31" by simp
  ultimately have "255 * 2 ^ 23 \<le> n * 2 ^ (32 - l)" by (rule order_trans [rotated])
  then show "2 ^ 23 \<le> rne (n * 2 ^ (32 - floorlog 2 n)) 255"
    unfolding l_def [symmetric] by (intro rne_ge) simp_all
qed

lemma f32_div255_binary32:
  assumes "n \<le> 255"
  shows "\<exists>m e. m \<le> 2 ^ 24 \<and> e \<le> 32 \<and> f32_div255 n = of_nat m / 2 ^ e"
proof (cases "n = 0")
  case True
  have "f32_div255 0 = of_nat 0 / 2 ^ 32"
    by (simp add: f32_div255_def rne_def compute_floorlog)
  with True show ?thesis by (intro exI [of _ 0] exI [of _ 32]) simp
next
  case False
  then have "1 \<le> n" by simp
  from f32_div255_significand(2) [OF this assms]
  show ?thesis
    by (intro exI [of _ "rne (n * 2 ^ (32 - floorlog 2 n)) 255"] exI [of _ "32 - floorlog 2 n"])
       (simp add: f32_div255_def Let_def)
qed

subsection \<open>The elements of an image tensor\<close>

lemma channels_nth:
  "k < 3 \<Longrightarrow> channels p ! k = f32_div255 (channel p k)"
proof -
  assume "k < 3"
  then consider "k = 0" | "k = 1" | "k = 2" by linarith
  then show ?thesis
    by cases (simp_all add: channels_def channel_def split: prod.splits)
qed

lemma channel_le: "k < 3 \<Longrightarrow> channel p k \<le> 255"
proof -
  assume "k < 3"
  then consider "k = 0" | "k = 1" | "k = 2" by linarith
  then show ?thesis
  proof cases
    case 1
    obtain r g b where p: "p = (r, g, b)" by (cases p)
    have "unat r < 2 ^ LENGTH(8)" by (rule unsigned_less)
    then show ?thesis using 1 p by (simp add: channel_def)
  next
    case 2
    obtain r g b where p: "p = (r, g, b)" by (cases p)
    have "unat g < 2 ^ LENGTH(8)" by (rule unsigned_less)
    then show ?thesis using 2 p by (simp add: channel_def)
  next
    case 3
    obtain r g b where p: "p = (r, g, b)" by (cases p)
    have "unat b < 2 ^ LENGTH(8)" by (rule unsigned_less)
    then show ?thesis using 3 p by (simp add: channel_def)
  qed
qed

lemma data_image_tensor:
  "img_size h img = (w, ht) \<Longrightarrow>
   data (image_tensor h img) =
     concat (map (\<lambda>y. concat (map (\<lambda>x. channels (img_rgb h img x y)) [0..<w])) [0..<ht])"
  by (simp add: image_tensor_def unsqueeze0_def rgb_array_def)

lemma data_image_tensor_nth:
  assumes "img_size h img = (w, ht)" and "y < ht" and "x < w" and "k < 3"
  shows "data (image_tensor h img) ! ((y * w + x) * 3 + k) = channels (img_rgb h img x y) ! k"
proof -
  let ?px = "\<lambda>y x. channels (img_rgb h img x y)"
  let ?row = "\<lambda>y. concat (map (?px y) [0..<w])"
  have idx: "(y * w + x) * 3 + k = y * (w * 3) + (x * 3 + k)"
    by (simp add: algebra_simps)
  have inner: "x * 3 + k < w * 3" using assms(3,4) by simp
  have "concat (map ?row [0..<ht]) ! (y * (w * 3) + (x * 3 + k)) = map ?row [0..<ht] ! y ! (x * 3 + k)"
  proof (rule nth_concat_uniform)
    fix r assume "r \<in> set (map ?row [0..<ht])"
    then obtain y' where "r = ?row y'" by auto
    then show "length r = w * 3" by (simp add: length_concat_uniform length_channels)
  next
    show "y < length (map ?row [0..<ht])" using assms(2) by simp
    show "x * 3 + k < w * 3" by (rule inner)
  qed
  also have "\<dots> = ?row y ! (x * 3 + k)" using assms(2) by simp
  also have "\<dots> = map (?px y) [0..<w] ! x ! k"
  proof (rule nth_concat_uniform)
    fix c assume "c \<in> set (map (?px y) [0..<w])"
    then show "length c = 3" by (auto simp: length_channels)
  next
    show "x < length (map (?px y) [0..<w])" using assms(3) by simp
    show "k < 3" by (rule assms(4))
  qed
  also have "\<dots> = ?px y x ! k" using assms(3) by simp
  finally show ?thesis by (simp only: idx data_image_tensor [OF assms(1)])
qed

subsection \<open>Opening the files\<close>

lemma open_images_length:
  "open_images h names = Inr imgs \<Longrightarrow> length imgs = length names"
  by (induction names arbitrary: imgs) (auto split: sum.splits)

lemma open_images_nth:
  "open_images h names = Inr imgs \<Longrightarrow> i < length names \<Longrightarrow>
     \<exists>p. resolve_path h (names ! i) = Inr p \<and> image_open h p = Inr (imgs ! i)"
proof (induction names arbitrary: imgs i)
  case Nil
  then show ?case by simp
next
  case (Cons name names)
  from Cons.prems(1) obtain p img rest where
    p: "resolve_path h name = Inr p" and img: "image_open h p = Inr img"
    and rest: "open_images h names = Inr rest" and imgs: "imgs = img # rest"
    by (auto split: sum.splits)
  show ?case
  proof (cases i)
    case 0
    with p img imgs show ?thesis by simp
  next
    case (Suc j)
    with Cons.prems(2) have "j < length names" by simp
    from Cons.IH [OF rest this] Suc imgs show ?thesis by simp
  qed
qed

lemma open_images_single:
  "resolve_path h name = Inr p \<Longrightarrow> image_open h p = Inr img \<Longrightarrow> open_images h [name] = Inr [img]"
  by simp

subsection \<open>The whole of \<^verbatim>\<open>load\<close>\<close>

lemma load_opened:
  assumes "normalize_images h images = Inr names" and "open_images h names = Inr imgs"
  shows "load h images rtf mode =
           (case build_batch h imgs (map (image_tensor h) imgs) rtf mode of
              Inl e \<Rightarrow> Inl e
            | Inr batch \<Rightarrow> Inr (batch, map (image_tensor h) imgs, names))"
  using assms by (simp add: load_def image_list_eq del: pil_to_comfy_tensor.simps)

lemma load_returns:
  assumes "load h images rtf mode = Inr (batch, image_list, names)"
  shows "\<exists>imgs. normalize_images h images = Inr names \<and> open_images h names = Inr imgs \<and>
           image_list = map (image_tensor h) imgs \<and>
           build_batch h imgs image_list rtf mode = Inr batch"
  using assms by (auto simp: load_def image_list_eq simp del: pil_to_comfy_tensor.simps split: sum.splits)

subsection \<open>The three ways to a batch\<close>

lemma build_batch_single:
  "build_batch h [img] [t] rtf mode = Inr t"
  by (simp add: build_batch_def)

lemma card_set_1_iff:
  "card (set xs) = 1 \<longleftrightarrow> xs \<noteq> [] \<and> (\<forall>x\<in>set xs. x = hd xs)"
proof
  assume "card (set xs) = 1"
  then obtain a where a: "set xs = {a}" by (auto simp: card_1_singleton_iff)
  then have "xs \<noteq> []" by auto
  moreover from a this have "hd xs = a" by (metis hd_in_set singletonD)
  ultimately show "xs \<noteq> [] \<and> (\<forall>x\<in>set xs. x = hd xs)" using a by auto
next
  assume r: "xs \<noteq> [] \<and> (\<forall>x\<in>set xs. x = hd xs)"
  then have "set xs = {hd xs}" by (cases xs) auto
  then show "card (set xs) = 1" by simp
qed

lemma build_batch_no_resize:
  assumes "length imgs \<noteq> 1"
  shows "build_batch h imgs (map (image_tensor h) imgs) False mode =
           (if imgs \<noteq> [] \<and> (\<forall>img\<in>set imgs. img_size h img = img_size h (hd imgs))
            then Inr \<lparr> shape = [length imgs, snd (img_size h (hd imgs)), fst (img_size h (hd imgs)), 3],
                       data = concat (map data (map (image_tensor h) imgs)) \<rparr>
            else Inl (ValueError different_sizes))"
proof -
  let ?hw = "\<lambda>img. (snd (img_size h img), fst (img_size h img))"
  have b: "build_batch h imgs (map (image_tensor h) imgs) False mode =
      (if card (set (map ?hw imgs)) \<noteq> 1 then Inl (ValueError different_sizes)
       else torch_cat (map (image_tensor h) imgs))"
    using assms by (simp add: build_batch_def comprehend_shape_hw)
  have eq: "?hw a = ?hw b \<longleftrightarrow> img_size h a = img_size h b" for a b
    by (auto simp: prod_eq_iff)
  have c: "card (set (map ?hw imgs)) = 1 \<longleftrightarrow>
      imgs \<noteq> [] \<and> (\<forall>img\<in>set imgs. img_size h img = img_size h (hd imgs))"
  proof (cases imgs)
    case Nil
    then show ?thesis by simp
  next
    case (Cons a list)
    have "(\<forall>x\<in>set (map ?hw imgs). x = hd (map ?hw imgs)) \<longleftrightarrow>
        (\<forall>img\<in>set imgs. ?hw img = ?hw (hd imgs))"
      using Cons by (simp del: prod.inject)
    also have "\<dots> \<longleftrightarrow> (\<forall>img\<in>set imgs. img_size h img = img_size h (hd imgs))"
      by (simp only: eq)
    finally show ?thesis
      using Cons by (simp only: card_set_1_iff) simp
  qed
  show ?thesis
  proof (cases "imgs \<noteq> [] \<and> (\<forall>img\<in>set imgs. img_size h img = img_size h (hd imgs))")
    case True
    have ne: "map (image_tensor h) imgs \<noteq> []" using True by simp
    have sh: "shape u = 1 # [snd (img_size h (hd imgs)), fst (img_size h (hd imgs)), 3]"
      if "u \<in> set (map (image_tensor h) imgs)" for u
    proof -
      from that obtain img where img: "img \<in> set imgs" and u: "u = image_tensor h img" by auto
      from True img have "img_size h img = img_size h (hd imgs)" by blast
      then show ?thesis by (simp add: u shape_image_tensor)
    qed
    have card1: "card (set (map ?hw imgs)) = 1" using c True by blast
    have "build_batch h imgs (map (image_tensor h) imgs) False mode =
        torch_cat (map (image_tensor h) imgs)"
      using b card1 by simp
    also have "\<dots> = Inr \<lparr> shape = [length imgs, snd (img_size h (hd imgs)), fst (img_size h (hd imgs)), 3],
                            data = concat (map data (map (image_tensor h) imgs)) \<rparr>"
      using torch_cat_unit [OF ne sh] by simp
    finally show ?thesis by (simp only: if_P [OF True])
  next
    case False
    have "card (set (map ?hw imgs)) \<noteq> 1" using c False by blast
    then have "build_batch h imgs (map (image_tensor h) imgs) False mode =
        Inl (ValueError different_sizes)"
      using b by simp
    then show ?thesis by (simp only: if_not_P [OF False])
  qed
qed

lemma build_batch_no_resize_cat:
  assumes "length imgs \<noteq> 1"
    and "build_batch h imgs (map (image_tensor h) imgs) False mode = Inr batch"
  shows "torch_cat (map (image_tensor h) imgs) = Inr batch"
  using assms by (simp add: build_batch_def comprehend_shape_hw split: if_splits)

lemma build_batch_resize_cat:
  assumes "imgs = img0 # rest" and "rest \<noteq> []"
  shows "build_batch h imgs image_list True mode =
           torch_cat (map (\<lambda>img. image_tensor h (resize_pil h img (img_size h img0) mode)) imgs)"
proof -
  let ?rs = "\<lambda>img. resize_pil h img (img_size h img0) mode"
  define rsz where "rsz = map ?rs imgs"
  have "build_batch h imgs image_list True mode =
      (case comprehend (\<lambda>img. pil_to_comfy_tensor h (PilImage img)) rsz of
         Inl e \<Rightarrow> Inl e
       | Inr batch_tensors \<Rightarrow> torch_cat batch_tensors)"
    unfolding rsz_def using assms
    by (cases "img_size h img0") (simp add: build_batch_def del: pil_to_comfy_tensor.simps)
  also have "\<dots> = torch_cat (map (image_tensor h) rsz)"
    by (simp add: image_list_eq del: pil_to_comfy_tensor.simps)
  finally show ?thesis
    by (simp add: rsz_def comp_def)
qed

lemma build_batch_resize:
  assumes "resize_contract h" and "imgs = img0 # rest" and "rest \<noteq> []"
  shows "build_batch h imgs image_list True mode =
           Inr \<lparr> shape = [length imgs, snd (img_size h img0), fst (img_size h img0), 3],
                 data = concat (map data
                   (map (\<lambda>img. image_tensor h (resize_pil h img (img_size h img0) mode)) imgs)) \<rparr>"
proof -
  let ?rs = "\<lambda>img. resize_pil h img (img_size h img0) mode"
  have sz: "img_size h (?rs img) = img_size h img0" for img
    using assms(1) by (simp add: resize_contract_def resize_pil_def Let_def del: split_paired_All)
  have cat: "torch_cat (map (\<lambda>img. image_tensor h (?rs img)) imgs) =
      Inr \<lparr> shape = length (map (\<lambda>img. image_tensor h (?rs img)) imgs) #
                     [snd (img_size h img0), fst (img_size h img0), 3],
            data = concat (map data (map (\<lambda>img. image_tensor h (?rs img)) imgs)) \<rparr>"
    using assms(2) by (intro torch_cat_unit) (auto simp: shape_image_tensor sz)
  show ?thesis
    using build_batch_resize_cat [OF assms(2,3), of h image_list mode] cat by simp
qed

subsection \<open>The entries of a batch\<close>

lemma slice0_cat_unit:
  assumes "\<And>u. u \<in> set ts \<Longrightarrow> shape u = 1 # rest \<and> length (data u) = prod_list rest"
    and "i < length ts"
  shows "slice0 \<lparr> shape = n # rest, data = concat (map data ts) \<rparr> i = ts ! i"
proof -
  have "take (prod_list rest) (drop (i * prod_list rest) (concat (map data ts))) = map data ts ! i"
    using assms by (intro take_drop_concat_uniform) auto
  then have d: "take (prod_list rest) (drop (i * prod_list rest) (concat (map data ts))) = data (ts ! i)"
    using assms(2) by simp
  have s: "shape (ts ! i) = 1 # rest"
    using assms by simp
  show ?thesis
    by (rule tensor.equality) (simp_all add: slice0_def d s)
qed

lemma torch_cat_slice0:
  assumes "torch_cat ts = Inr batch"
    and "\<And>u. u \<in> set ts \<Longrightarrow> \<exists>img. u = image_tensor h img"
    and "i < length ts"
  shows "slice0 batch i = ts ! i"
proof -
  from assms(1) obtain t ts' where ts: "ts = t # ts'"
    by (cases ts) (simp_all add: torch_cat_def)
  define rest where "rest = tl (shape t)"
  have tails: "\<And>u. u \<in> set ts \<Longrightarrow> tl (shape u) = rest"
    using assms(1) unfolding rest_def ts by (auto simp: torch_cat_def split: if_splits)
  have unit: "shape u = 1 # rest \<and> length (data u) = prod_list rest" if "u \<in> set ts" for u
  proof -
    from assms(2) [OF that] obtain img where u: "u = image_tensor h img" by blast
    have "tl (shape u) = rest" using that by (rule tails)
    then have "rest = [snd (img_size h img), fst (img_size h img), 3]"
      by (simp add: u shape_image_tensor)
    then show ?thesis
      by (simp add: u shape_image_tensor length_data_image_tensor)
  qed
  have ne: "ts \<noteq> []" using ts by simp
  have "torch_cat ts = Inr \<lparr> shape = length ts # rest, data = concat (map data ts) \<rparr>"
    using ne unit by (intro torch_cat_unit) blast+
  with assms(1) have "batch = \<lparr> shape = length ts # rest, data = concat (map data ts) \<rparr>"
    by simp
  then show ?thesis
    using slice0_cat_unit [of ts rest i "length ts"] unit assms(3) by simp
qed

subsection \<open>Facts used by several claims\<close>

lemma slice0_image_tensor: "slice0 (image_tensor h img) 0 = image_tensor h img"
  by (rule tensor.equality)
     (simp_all add: slice0_def shape_image_tensor length_data_image_tensor)

lemma load_one:
  assumes "normalize_images h images = Inr [name]"
    and "resolve_path h name = Inr p" and "image_open h p = Inr img"
  shows "load h images rtf mode = Inr (image_tensor h img, [image_tensor h img], [name])"
proof -
  have "open_images h [name] = Inr [img]"
    using assms(2,3) by (rule open_images_single)
  from load_opened [OF assms(1) this] show ?thesis
    by (simp add: build_batch_single)
qed

lemma shape_hw_eq_iff:
  "shape_hw (image_tensor h a) = shape_hw (image_tensor h b) \<longleftrightarrow> img_size h a = img_size h b"
  by (auto simp: shape_hw_image_tensor prod_eq_iff)

lemma demo_resize_contract: "resize_contract demo_host"
  by (simp add: resize_contract_def demo_host_def)

lemma demo_open_a_b:
  "open_images demo_host [''a.png'', ''b.png''] = Inr [((2, 2), (255, 0, 0)), ((3, 1), (0, 128, 255))]"
  by (simp add: resolve_path_def demo_host_def demo_files_def)

lemma demo_open_a_c:
  "open_images demo_host [''a.png'', ''c.png''] = Inr [((2, 2), (255, 0, 0)), ((2, 2), (1, 2, 3))]"
  by (simp add: resolve_path_def demo_host_def demo_files_def)

lemma normalize_list:
  "normalize_images h (PList (map PStr names)) = Inr names"
  by (simp add: normalize_images_def check_list_str_def list_all_iff comp_def)

lemma demo_load_a_c_resized:
  "load demo_host (PList [PStr ''a.png'', PStr ''c.png'']) True mode =
     Inr (\<lparr> shape = [2, 2, 2, 3],
            data = concat (map data
              (map (\<lambda>img. image_tensor demo_host (resize_pil demo_host img (2, 2) mode))
                 [((2, 2), (255, 0, 0)), ((2, 2), (1, 2, 3))])) \<rparr>,
          map (image_tensor demo_host) [((2, 2), (255, 0, 0)), ((2, 2), (1, 2, 3))],
          [''a.png'', ''c.png''])"
proof -
  have n: "normalize_images demo_host (PList [PStr ''a.png'', PStr ''c.png'']) = Inr [''a.png'', ''c.png'']"
    using normalize_list [of demo_host "[''a.png'', ''c.png'']"] by simp
  have sz: "img_size demo_host ((2, 2), (255, 0, 0)) = (2, 2)" by (simp add: demo_host_def)
  have "build_batch demo_host [((2, 2), (255, 0, 0)), ((2, 2), (1, 2, 3))]
          (map (image_tensor demo_host) [((2, 2), (255, 0, 0)), ((2, 2), (1, 2, 3))]) True mode =
        Inr \<lparr> shape = [2, 2, 2, 3],
            data = concat (map data
              (map (\<lambda>img. image_tensor demo_host (resize_pil demo_host img (2, 2) mode))
                 [((2, 2), (255, 0, 0)), ((2, 2), (1, 2, 3))])) \<rparr>"
    using build_batch_resize [OF demo_resize_contract refl, of "[((2, 2), (1, 2, 3))]"
            "((2, 2), (255, 0, 0))" "map (image_tensor demo_host) [((2, 2), (255, 0, 0)), ((2, 2), (1, 2, 3))]" mode]
    by (simp add: sz)
  with load_opened [OF n demo_open_a_c, of True mode] show ?thesis by simp
qed

lemma demo_load_a_c_plain:
  "load demo_host (PList [PStr ''a.png'', PStr ''c.png'']) False mode =
     Inr (\<lparr> shape = [2, 2, 2, 3],
            data = concat (map data
              (map (image_tensor demo_host) [((2, 2), (255, 0, 0)), ((2, 2), (1, 2, 3))])) \<rparr>,
          map (image_tensor demo_host) [((2, 2), (255, 0, 0)), ((2, 2), (1, 2, 3))],
          [''a.png'', ''c.png''])"
proof -
  have n: "normalize_images demo_host (PList [PStr ''a.png'', PStr ''c.png'']) = Inr [''a.png'', ''c.png'']"
    using normalize_list [of demo_host "[''a.png'', ''c.png'']"] by simp
  have "build_batch demo_host [((2, 2), (255, 0, 0)), ((2, 2), (1, 2, 3))]
          (map (image_tensor demo_host) [((2, 2), (255, 0, 0)), ((2, 2), (1, 2, 3))]) False mode =
        Inr \<lparr> shape = [2, 2, 2, 3],
            data = concat (map data
              (map (image_tensor demo_host) [((2, 2), (255, 0, 0)), ((2, 2), (1, 2, 3))])) \<rparr>"
    using build_batch_no_resize [of "[((2, 2), (255, 0, 0)), ((2, 2), (1, 2, 3))]" demo_host mode]
    by (simp add: demo_host_def)
  with load_opened [OF n demo_open_a_c, of False mode] show ?thesis by simp
qed

lemma demo_load_a_b_resized:
  "load demo_host (PList [PStr ''a.png'', PStr ''b.png'']) True mode =
     Inr (\<lparr> shape = [2, 2, 2, 3],
            data = concat (map data
              (map (\<lambda>img. image_tensor demo_host (resize_pil demo_host img (2, 2) mode))
                 [((2, 2), (255, 0, 0)), ((3, 1), (0, 128, 255))])) \<rparr>,
          map (image_tensor demo_host) [((2, 2), (255, 0, 0)), ((3, 1), (0, 128, 255))],
          [''a.png'', ''b.png''])"
proof -
  have n: "normalize_images demo_host (PList [PStr ''a.png'', PStr ''b.png'']) = Inr [''a.png'', ''b.png'']"
    using normalize_list [of demo_host "[''a.png'', ''b.png'']"] by simp
  have sz: "img_size demo_host ((2, 2), (255, 0, 0)) = (2, 2)" by (simp add: demo_host_def)
  have "build_batch demo_host [((2, 2), (255, 0, 0)), ((3, 1), (0, 128, 255))]
          (map (image_tensor demo_host) [((2, 2), (255, 0, 0)), ((3, 1), (0, 128, 255))]) True mode =
        Inr \<lparr> shape = [2, 2, 2, 3],
            data = concat (map data
              (map (\<lambda>img. image_tensor demo_host (resize_pil demo_host img (2, 2) mode))
                 [((2, 2), (255, 0, 0)), ((3, 1), (0, 128, 255))])) \<rparr>"
    using build_batch_resize [OF demo_resize_contract refl, of "[((3, 1), (0, 128, 255))]"
            "((2, 2), (255, 0, 0))" "map (image_tensor demo_host) [((2, 2), (255, 0, 0)), ((3, 1), (0, 128, 255))]" mode]
    by (simp add: sz)
  with load_opened [OF n demo_open_a_b, of True mode] show ?thesis by simp
qed

subsection \<open>Texts within texts\<close>




subsection \<open>Lists of strings\<close>

lemma list_all_is_str_iff: "list_all is_str xs \<longleftrightarrow> (\<exists>names. xs = map PStr names)"
proof
  assume "list_all is_str xs"
  then have "xs = map PStr (map str_of xs)"
  proof (induction xs)
    case Nil
    then show ?case by simp
  next
    case (Cons x xs)
    then show ?case by (cases x) simp_all
  qed
  then show "\<exists>names. xs = map PStr names" ..
next
  assume "\<exists>names. xs = map PStr names"
  then show "list_all is_str xs" by (auto simp: list_all_iff)
qed

lemma check_list_str_names: "check_list_str (PList (map PStr names)) = Inr names"
  by (simp add: check_list_str_def list_all_iff comp_def)

lemma check_list_str_other:
  assumes "\<forall>names. v \<noteq> PList (map PStr names)"
  shows "check_list_str v =
           Inl (TypeError [Text ''`images` must be a list[str] (or JSON string). Got: '',
                           TypeRepr (py_type v), Text '' '', ValueRepr v])"
proof (cases v)
  case (PList xs)
  with assms have "\<not> list_all is_str xs" by (simp add: list_all_is_str_iff)
  with PList show ?thesis by (simp add: check_list_str_def)
qed (simp_all add: check_list_str_def)

lemma normalize_string:
  "normalize_images h (PStr str) =
     (if startswith (strip str) ''['' \<and> endswith (strip str) '']''
      then (case json_loads h (strip str) of Inl e \<Rightarrow> Inl e | Inr v \<Rightarrow> check_list_str v)
      else Inr [str])"
  by (simp add: normalize_images_def Let_def check_list_str_def)

lemma strip_example: "strip ''[\"a.png\",\"b.png\"]'' = ''[\"a.png\",\"b.png\"]''"
  by (simp add: strip_def isspace_def)

lemma demo_json_example:
  "json_loads demo_host ''[\"a.png\",\"b.png\"]'' = Inr (PList [PStr ''a.png'', PStr ''b.png''])"
  by (simp add: demo_host_def demo_json_loads_def isspace_def)

subsection \<open>A host that shows the filter\<close>

lemma probe_resize_contract: "resize_contract probe_host"
  by (simp add: resize_contract_def probe_host_def demo_host_def)

lemma probe_open_a_b:
  "open_images probe_host [''a.png'', ''b.png''] = Inr [((2, 2), (255, 0, 0)), ((3, 1), (0, 128, 255))]"
  by (simp add: resolve_path_def probe_host_def demo_host_def demo_files_def)

lemma probe_tensors_differ:
  "image_tensor probe_host ((2, 2), (0, 0, 0)) \<noteq> image_tensor probe_host ((2, 2), (3, 3, 3))"
proof
  assume "image_tensor probe_host ((2, 2), (0, 0, 0)) = image_tensor probe_host ((2, 2), (3, 3, 3))"
  then have "data (image_tensor probe_host ((2, 2), (0, 0, 0))) ! 0 =
      data (image_tensor probe_host ((2, 2), (3, 3, 3))) ! 0"
    by simp
  moreover have "[0..<2] = [0, Suc 0]" by (simp add: upt_rec)
  ultimately have "f32_div255 0 = f32_div255 3"
    by (simp add: image_tensor_def unsqueeze0_def rgb_array_def channels_def
          probe_host_def demo_host_def)
  then show False
    by (simp add: f32_div255_def rne_def compute_floorlog)
qed

section \<open>The claims\<close>

text \<open>
  C1: with \<^verbatim>\<open>resize_to_first\<close> set and two or more files, every image, the first
  included, is resized to the size of the first with the configured mode: the image
  library's resize is called on it with that size and with the filter the mode names
  (lanczos for a name outside the table). The batch has one entry per file, the tensor
  of the resized image, and its height and width are those of the first image, whatever
  the sizes of the others. (The image library is taken to return, from a resize, an
  image of the size asked for.)
\<close>

theorem load_resize_to_first:
  assumes "resize_contract h"
    and "normalize_images h images = Inr names"
    and "open_images h names = Inr (img0 # rest)"
    and "rest \<noteq> []"
    and "img_size h img0 = (w0, h0)"
  shows "\<exists>batch. load h images True mode = Inr (batch, map (image_tensor h) (img0 # rest), names) \<and>
           shape batch = [length names, h0, w0, 3] \<and>
           (\<forall>i<length names.
              slice0 batch i = image_tensor h (resize_pil h ((img0 # rest) ! i) (w0, h0) mode) \<and>
              slice0 batch i =
                image_tensor h
                  (img_resize h ((img0 # rest) ! i) (w0, h0)
                     (if mode = ''nearest'' then NEAREST
                      else if mode = ''bilinear'' then BILINEAR
                      else if mode = ''bicubic'' then BICUBIC
                      else LANCZOS)))"
proof -
  let ?imgs = "img0 # rest"
  let ?f = "if mode = ''nearest'' then NEAREST else if mode = ''bilinear'' then BILINEAR
            else if mode = ''bicubic'' then BICUBIC else LANCZOS"
  let ?ts = "map (\<lambda>img. image_tensor h (resize_pil h img (w0, h0) mode)) ?imgs"
  let ?batch = "\<lparr> shape = [length ?imgs, h0, w0, 3], data = concat (map data ?ts) \<rparr>"
  have len: "length ?imgs = length names"
    using assms(3) by (rule open_images_length)
  have bb: "build_batch h ?imgs (map (image_tensor h) ?imgs) True mode = Inr ?batch"
    by (simp add: build_batch_resize [OF assms(1) refl assms(4)] assms(5))
  have ld: "load h images True mode = Inr (?batch, map (image_tensor h) ?imgs, names)"
    using load_opened [OF assms(2,3), of True mode] bb by simp
  have cat: "torch_cat ?ts = Inr ?batch"
    using bb by (simp add: build_batch_resize_cat [OF refl assms(4)] assms(5))
  have sl: "slice0 ?batch i = image_tensor h (resize_pil h (?imgs ! i) (w0, h0) mode) \<and>
      slice0 ?batch i = image_tensor h (img_resize h (?imgs ! i) (w0, h0) ?f)"
    if "i < length names" for i
  proof -
    have i: "i < length ?ts" using that len by simp
    have "slice0 ?batch i = ?ts ! i"
      using cat _ i by (rule torch_cat_slice0) auto
    also have "\<dots> = image_tensor h (resize_pil h (?imgs ! i) (w0, h0) mode)"
      using i by (simp only: length_map nth_map)
    finally have s: "slice0 ?batch i = image_tensor h (resize_pil h (?imgs ! i) (w0, h0) mode)" .
    have "resize_pil h (?imgs ! i) (w0, h0) mode = img_resize h (?imgs ! i) (w0, h0) ?f"
      by (simp add: resize_pil_def resample_table_def)
    with s show ?thesis by (simp only: simp_thms)
  qed
  have "shape ?batch = [length names, h0, w0, 3]" using len by simp
  with ld sl show ?thesis by blast
qed

theorem load_resize_to_first_witness:
  "resize_contract probe_host \<and>
   normalize_images probe_host (PList [PStr ''a.png'', PStr ''b.png'']) = Inr [''a.png'', ''b.png''] \<and>
   open_images probe_host [''a.png'', ''b.png''] = Inr [((2, 2), (255, 0, 0)), ((3, 1), (0, 128, 255))] \<and>
   [((3, 1), (0, 128, 255))] \<noteq> ([] :: solid list) \<and>
   img_size probe_host ((2, 2), (255, 0, 0)) = (2, 2) \<and>
   img_resize probe_host ((3, 1), (0, 128, 255)) (2, 2) NEAREST = ((2, 2), (0, 0, 0)) \<and>
   img_resize probe_host ((3, 1), (0, 128, 255)) (2, 2) LANCZOS = ((2, 2), (3, 3, 3)) \<and>
   image_tensor probe_host ((2, 2), (0, 0, 0)) \<noteq> image_tensor probe_host ((2, 2), (3, 3, 3)) \<and>
   (\<exists>batch. load probe_host (PList [PStr ''a.png'', PStr ''b.png'']) True ''nearest'' =
        Inr (batch, map (image_tensor probe_host) [((2, 2), (255, 0, 0)), ((3, 1), (0, 128, 255))],
             [''a.png'', ''b.png'']) \<and>
      shape batch = [2, 2, 2, 3] \<and>
      slice0 batch 0 = image_tensor probe_host ((2, 2), (0, 0, 0)) \<and>
      slice0 batch 1 = image_tensor probe_host ((2, 2), (0, 0, 0)))"
proof -
  let ?A = "((2, 2), (255, 0, 0)) :: solid"
  let ?B = "((3, 1), (0, 128, 255)) :: solid"
  let ?N = "((2, 2), (0, 0, 0)) :: solid"
  have n: "normalize_images probe_host (PList [PStr ''a.png'', PStr ''b.png'']) = Inr [''a.png'', ''b.png'']"
    using normalize_list [of probe_host "[''a.png'', ''b.png'']"] by simp
  have ne: "[?B] \<noteq> ([] :: solid list)" by simp
  have sz: "img_size probe_host ?A = (2, 2)" by (simp add: probe_host_def demo_host_def)
  have rn: "img_resize probe_host ?B (2, 2) NEAREST = ?N"
    and rl: "img_resize probe_host ?B (2, 2) LANCZOS = ((2, 2), (3, 3, 3))"
    and ra: "img_resize probe_host ?A (2, 2) NEAREST = ?N"
    by (simp_all add: probe_host_def)
  have f: "(if ''nearest'' = ''nearest'' then NEAREST else if ''nearest'' = ''bilinear'' then BILINEAR
            else if ''nearest'' = ''bicubic'' then BICUBIC else LANCZOS) = NEAREST"
    by simp
  from load_resize_to_first [OF probe_resize_contract n probe_open_a_b ne sz, of "''nearest''"]
  obtain batch where b:
    "load probe_host (PList [PStr ''a.png'', PStr ''b.png'']) True ''nearest'' =
        Inr (batch, map (image_tensor probe_host) [?A, ?B], [''a.png'', ''b.png'']) \<and>
     shape batch = [length [''a.png'', ''b.png''], 2, 2, 3] \<and>
     (\<forall>i<length [''a.png'', ''b.png''].
        slice0 batch i = image_tensor probe_host (resize_pil probe_host ([?A, ?B] ! i) (2, 2) ''nearest'') \<and>
        slice0 batch i =
          image_tensor probe_host
            (img_resize probe_host ([?A, ?B] ! i) (2, 2)
               (if ''nearest'' = ''nearest'' then NEAREST
                else if ''nearest'' = ''bilinear'' then BILINEAR
                else if ''nearest'' = ''bicubic'' then BICUBIC
                else LANCZOS)))"
    ..
  from b have l: "load probe_host (PList [PStr ''a.png'', PStr ''b.png'']) True ''nearest'' =
        Inr (batch, map (image_tensor probe_host) [?A, ?B], [''a.png'', ''b.png''])"
    by (rule conjunct1)
  from b have s: "shape batch = [2, 2, 2, 3]" by simp
  note e = conjunct2 [OF conjunct2 [OF b], rule_format]
  have i0: "(0::nat) < length [''a.png'', ''b.png'']" and i1: "(1::nat) < length [''a.png'', ''b.png'']"
    by simp_all
  have nth0: "[?A, ?B] ! 0 = ?A" and nth1: "[?A, ?B] ! 1 = ?B" by simp_all
  have s0: "slice0 batch 0 = image_tensor probe_host ?N"
    using e [OF i0, THEN conjunct2] by (simp only: f nth0 ra)
  have s1: "slice0 batch 1 = image_tensor probe_host ?N"
    using e [OF i1, THEN conjunct2] by (simp only: f nth1 rn)
  from l s s0 s1 have concl:
    "\<exists>batch. load probe_host (PList [PStr ''a.png'', PStr ''b.png'']) True ''nearest'' =
        Inr (batch, map (image_tensor probe_host) [?A, ?B], [''a.png'', ''b.png'']) \<and>
      shape batch = [2, 2, 2, 3] \<and>
      slice0 batch 0 = image_tensor probe_host ?N \<and>
      slice0 batch 1 = image_tensor probe_host ?N"
    by (intro exI [of _ batch] conjI)
  show ?thesis
    by (intro conjI; fact probe_resize_contract n probe_open_a_b ne sz rn rl probe_tensors_differ concl)
qed

text \<open>
  C2: with more than one image and \<^verbatim>\<open>resize_to_first\<close> off: if two of the decoded
  images differ in their (height, width) pair, the call raises the value error that tells
  the caller to enable resizing or to use the list output, and so returns nothing; if
  all pairs are equal, the batch is the concatenation of the per-image tensors along
  the batch axis.
\<close>

theorem load_without_resize:
  assumes "normalize_images h images = Inr names"
    and "open_images h names = Inr imgs"
    and "1 < length imgs"
  shows "((\<exists>a\<in>set imgs. \<exists>b\<in>set imgs.
             shape_hw (image_tensor h a) \<noteq> shape_hw (image_tensor h b)) \<longrightarrow>
          load h images False mode =
            Inl (ValueError ''Images have different sizes; enable resize_to_first=True or use the image_list output.'')) \<and>
         ((\<forall>a\<in>set imgs. \<forall>b\<in>set imgs.
             shape_hw (image_tensor h a) = shape_hw (image_tensor h b)) \<longrightarrow>
          (\<exists>batch. torch_cat (map (image_tensor h) imgs) = Inr batch \<and>
             shape batch = [length imgs, snd (img_size h (hd imgs)), fst (img_size h (hd imgs)), 3] \<and>
             data batch = concat (map (\<lambda>img. data (image_tensor h img)) imgs) \<and>
             load h images False mode = Inr (batch, map (image_tensor h) imgs, names)))"
proof -
  let ?same = "imgs \<noteq> [] \<and> (\<forall>img\<in>set imgs. img_size h img = img_size h (hd imgs))"
  let ?batch = "\<lparr> shape = [length imgs, snd (img_size h (hd imgs)), fst (img_size h (hd imgs)), 3],
                  data = concat (map data (map (image_tensor h) imgs)) \<rparr>"
  have n1: "length imgs \<noteq> 1" and ne: "imgs \<noteq> []" using assms(3) by auto
  have hd: "hd imgs \<in> set imgs" using ne by simp
  have bb: "build_batch h imgs (map (image_tensor h) imgs) False mode =
      (if ?same then Inr ?batch else Inl (ValueError different_sizes))"
    using n1 by (rule build_batch_no_resize)
  have ld: "load h images False mode =
      (case build_batch h imgs (map (image_tensor h) imgs) False mode of
         Inl e \<Rightarrow> Inl e
       | Inr batch \<Rightarrow> Inr (batch, map (image_tensor h) imgs, names))"
    using assms(1,2) by (rule load_opened)
  have differ: "load h images False mode = Inl (ValueError different_sizes)"
    if "\<exists>a\<in>set imgs. \<exists>b\<in>set imgs. shape_hw (image_tensor h a) \<noteq> shape_hw (image_tensor h b)"
  proof -
    from that obtain a b where "a \<in> set imgs" "b \<in> set imgs" "img_size h a \<noteq> img_size h b"
      by (auto simp: shape_hw_eq_iff)
    then have "\<not> ?same" by metis
    then have "build_batch h imgs (map (image_tensor h) imgs) False mode = Inl (ValueError different_sizes)"
      by (simp only: bb if_False)
    then show ?thesis by (simp add: ld)
  qed
  have equal: "torch_cat (map (image_tensor h) imgs) = Inr ?batch \<and>
      load h images False mode = Inr (?batch, map (image_tensor h) imgs, names)"
    if "\<forall>a\<in>set imgs. \<forall>b\<in>set imgs. shape_hw (image_tensor h a) = shape_hw (image_tensor h b)"
  proof -
    have "img_size h img = img_size h (hd imgs)" if "img \<in> set imgs" for img
    proof -
      from \<open>\<forall>a\<in>set imgs. \<forall>b\<in>set imgs. _\<close> that hd
      have "shape_hw (image_tensor h img) = shape_hw (image_tensor h (hd imgs))" by blast
      then show ?thesis by (simp only: shape_hw_eq_iff)
    qed
    with ne have same: ?same by blast
    have b: "build_batch h imgs (map (image_tensor h) imgs) False mode = Inr ?batch"
      by (simp only: bb if_P [OF same])
    from build_batch_no_resize_cat [OF n1 b] b show ?thesis by (simp add: ld)
  qed
  show ?thesis
  proof (intro conjI impI)
    assume "\<exists>a\<in>set imgs. \<exists>b\<in>set imgs. shape_hw (image_tensor h a) \<noteq> shape_hw (image_tensor h b)"
    then show "load h images False mode =
        Inl (ValueError ''Images have different sizes; enable resize_to_first=True or use the image_list output.'')"
      using differ by (simp only: different_sizes_def)
  next
    assume "\<forall>a\<in>set imgs. \<forall>b\<in>set imgs. shape_hw (image_tensor h a) = shape_hw (image_tensor h b)"
    then have "torch_cat (map (image_tensor h) imgs) = Inr ?batch \<and>
        load h images False mode = Inr (?batch, map (image_tensor h) imgs, names)"
      by (rule equal)
    then show "\<exists>batch. torch_cat (map (image_tensor h) imgs) = Inr batch \<and>
        shape batch = [length imgs, snd (img_size h (hd imgs)), fst (img_size h (hd imgs)), 3] \<and>
        data batch = concat (map (\<lambda>img. data (image_tensor h img)) imgs) \<and>
        load h images False mode = Inr (batch, map (image_tensor h) imgs, names)"
      by (intro exI [of _ ?batch]) (simp add: comp_def)
  qed
qed

theorem load_without_resize_witness:
  "normalize_images demo_host (PList [PStr ''a.png'', PStr ''b.png'']) = Inr [''a.png'', ''b.png''] \<and>
   open_images demo_host [''a.png'', ''b.png''] = Inr [((2, 2), (255, 0, 0)), ((3, 1), (0, 128, 255))] \<and>
   1 < length [((2, 2), (255, 0, 0)), ((3, 1), (0, 128, 255)) :: solid] \<and>
   shape_hw (image_tensor demo_host ((2, 2), (255, 0, 0))) \<noteq>
     shape_hw (image_tensor demo_host ((3, 1), (0, 128, 255))) \<and>
   load demo_host (PList [PStr ''a.png'', PStr ''b.png'']) False ''lanczos'' =
     Inl (ValueError ''Images have different sizes; enable resize_to_first=True or use the image_list output.'') \<and>
   normalize_images demo_host (PList [PStr ''a.png'', PStr ''c.png'']) = Inr [''a.png'', ''c.png''] \<and>
   open_images demo_host [''a.png'', ''c.png''] = Inr [((2, 2), (255, 0, 0)), ((2, 2), (1, 2, 3))] \<and>
   shape_hw (image_tensor demo_host ((2, 2), (255, 0, 0))) =
     shape_hw (image_tensor demo_host ((2, 2), (1, 2, 3))) \<and>
   (\<exists>batch. torch_cat (map (image_tensor demo_host) [((2, 2), (255, 0, 0)), ((2, 2), (1, 2, 3))]) = Inr batch \<and>
      shape batch = [2, 2, 2, 3] \<and>
      load demo_host (PList [PStr ''a.png'', PStr ''c.png'']) False ''lanczos'' =
        Inr (batch, map (image_tensor demo_host) [((2, 2), (255, 0, 0)), ((2, 2), (1, 2, 3))],
             [''a.png'', ''c.png'']))"
proof -
  let ?A = "((2, 2), (255, 0, 0)) :: solid"
  let ?B = "((3, 1), (0, 128, 255)) :: solid"
  let ?C = "((2, 2), (1, 2, 3)) :: solid"
  have n1: "normalize_images demo_host (PList [PStr ''a.png'', PStr ''b.png'']) = Inr [''a.png'', ''b.png'']"
    using normalize_list [of demo_host "[''a.png'', ''b.png'']"] by simp
  have n2: "normalize_images demo_host (PList [PStr ''a.png'', PStr ''c.png'']) = Inr [''a.png'', ''c.png'']"
    using normalize_list [of demo_host "[''a.png'', ''c.png'']"] by simp
  have len1: "1 < length [?A, ?B]" and len2: "1 < length [?A, ?C]" by simp_all
  have d: "shape_hw (image_tensor demo_host ?A) \<noteq> shape_hw (image_tensor demo_host ?B)"
    by (simp add: shape_hw_image_tensor demo_host_def)
  have e: "shape_hw (image_tensor demo_host ?A) = shape_hw (image_tensor demo_host ?C)"
    by (simp add: shape_hw_image_tensor demo_host_def)
  have differ: "\<exists>a\<in>set [?A, ?B]. \<exists>b\<in>set [?A, ?B].
      shape_hw (image_tensor demo_host a) \<noteq> shape_hw (image_tensor demo_host b)"
    using d by (intro bexI [of _ ?A] bexI [of _ ?B]) simp_all
  have same: "\<forall>a\<in>set [?A, ?C]. \<forall>b\<in>set [?A, ?C].
      shape_hw (image_tensor demo_host a) = shape_hw (image_tensor demo_host b)"
    using e by simp
  note t1 = load_without_resize [OF n1 demo_open_a_b len1, of "''lanczos''"]
  note t2 = load_without_resize [OF n2 demo_open_a_c len2, of "''lanczos''"]
  have r1: "load demo_host (PList [PStr ''a.png'', PStr ''b.png'']) False ''lanczos'' =
     Inl (ValueError ''Images have different sizes; enable resize_to_first=True or use the image_list output.'')"
    using t1 [THEN conjunct1] differ by (rule mp)
  have "\<exists>batch. torch_cat (map (image_tensor demo_host) [?A, ?C]) = Inr batch \<and>
      shape batch = [length [?A, ?C], snd (img_size demo_host (hd [?A, ?C])),
                     fst (img_size demo_host (hd [?A, ?C])), 3] \<and>
      data batch = concat (map (\<lambda>img. data (image_tensor demo_host img)) [?A, ?C]) \<and>
      load demo_host (PList [PStr ''a.png'', PStr ''c.png'']) False ''lanczos'' =
        Inr (batch, map (image_tensor demo_host) [?A, ?C], [''a.png'', ''c.png''])"
    using t2 [THEN conjunct2] same by (rule mp)
  then obtain batch where
    c: "torch_cat (map (image_tensor demo_host) [?A, ?C]) = Inr batch"
    and s: "shape batch = [length [?A, ?C], snd (img_size demo_host (hd [?A, ?C])),
                     fst (img_size demo_host (hd [?A, ?C])), 3]"
    and l: "load demo_host (PList [PStr ''a.png'', PStr ''c.png'']) False ''lanczos'' =
        Inr (batch, map (image_tensor demo_host) [?A, ?C], [''a.png'', ''c.png''])"
    by blast
  from s have s': "shape batch = [2, 2, 2, 3]" by (simp add: demo_host_def)
  from c s' l have r2: "\<exists>batch. torch_cat (map (image_tensor demo_host) [?A, ?C]) = Inr batch \<and>
      shape batch = [2, 2, 2, 3] \<and>
      load demo_host (PList [PStr ''a.png'', PStr ''c.png'']) False ''lanczos'' =
        Inr (batch, map (image_tensor demo_host) [?A, ?C], [''a.png'', ''c.png''])"
    by (intro exI [of _ batch] conjI)
  show ?thesis
    by (intro conjI; fact n1 n2 demo_open_a_b demo_open_a_c len1 d e r1 r2)
qed




text \<open>
  C4: with no image at all the loader should fail with a value error. For the input
  \<^verbatim>\<open>None\<close> it does (line 86). The empty list is not caught there: it passes the
  checks of lines 88 to 100 and no image is opened. With \<^verbatim>\<open>resize_to_first\<close> set,
  as it is by default, line 124 then indexes the empty list of images, and the failure
  is an index error. With \<^verbatim>\<open>resize_to_first\<close> off the failure is a value error, the
  one of line 132 about images of different sizes.
\<close>

theorem load_empty_list_index_error:
  "load h PNone resize_to_first resize_mode = Inl (ValueError ''No images provided.'') \<and>
   load h (PList []) True resize_mode = Inl (IndexError ''list index out of range'') \<and>
   load h (PList []) False resize_mode =
     Inl (ValueError ''Images have different sizes; enable resize_to_first=True or use the image_list output.'')"
  by (simp add: load_def normalize_images_def check_list_str_def build_batch_def different_sizes_def)

text \<open>
  C5, as stated: a string that is not a bracketed array is wrapped as a one-element
  list of the trimmed filename. It is not: the trimmed text is used for the bracket test
  only, and line 97 wraps the string as it came. A leading blank stays in the name.
\<close>

theorem normalize_trimmed_counterexample:
  "strip '' a.png'' = ''a.png'' \<and>
   normalize_images demo_host (PStr '' a.png'') = Inr ['' a.png''] \<and>
   normalize_images demo_host (PStr '' a.png'') \<noteq> Inr [''a.png'']"
  by (simp add: normalize_images_def check_list_str_def strip_def isspace_def startswith_def)

text \<open>
  C5, amended: given a string, the normalizer trims it; if the trimmed text starts with
  \<^verbatim>\<open>[\<close> and ends with \<^verbatim>\<open>]\<close>, the trimmed text is parsed as JSON and the result is the
  value checked next; so, where the JSON parser reads \<^verbatim>\<open>["a.png","b.png"]\<close> as the list
  of those two strings, that string input normalizes to the same list as the list input
  does. Any other string is wrapped, untrimmed, as a one-element list. A final value that
  is not a list of strings raises a type error that carries the type and the value.
\<close>

theorem normalize_images_string:
  "normalize_images h (PStr str) =
     (if startswith (strip str) ''['' \<and> endswith (strip str) '']''
      then (case json_loads h (strip str) of Inl e \<Rightarrow> Inl e | Inr v \<Rightarrow> check_list_str v)
      else Inr [str]) \<and>
   (json_loads h ''[\"a.png\",\"b.png\"]'' = Inr (PList [PStr ''a.png'', PStr ''b.png'']) \<longrightarrow>
      normalize_images h (PStr ''[\"a.png\",\"b.png\"]'') =
        normalize_images h (PList [PStr ''a.png'', PStr ''b.png'']) \<and>
      normalize_images h (PList [PStr ''a.png'', PStr ''b.png'']) = Inr [''a.png'', ''b.png'']) \<and>
   check_list_str (PList (map PStr names)) = Inr names \<and>
   ((\<forall>names. v \<noteq> PList (map PStr names)) \<longrightarrow>
      check_list_str v =
        Inl (TypeError [Text ''`images` must be a list[str] (or JSON string). Got: '',
                        TypeRepr (py_type v), Text '' '', ValueRepr v])) \<and>
   (v \<noteq> PNone \<and> \<not> is_str v \<longrightarrow> normalize_images h v = check_list_str v)"
proof (intro conjI impI)
  show "normalize_images h (PStr str) =
     (if startswith (strip str) ''['' \<and> endswith (strip str) '']''
      then (case json_loads h (strip str) of Inl e \<Rightarrow> Inl e | Inr v \<Rightarrow> check_list_str v)
      else Inr [str])"
    by (rule normalize_string)
  show "check_list_str (PList (map PStr names)) = Inr names"
    by (rule check_list_str_names)
next
  assume j: "json_loads h ''[\"a.png\",\"b.png\"]'' = Inr (PList [PStr ''a.png'', PStr ''b.png''])"
  have l: "normalize_images h (PList [PStr ''a.png'', PStr ''b.png'']) = Inr [''a.png'', ''b.png'']"
    using normalize_list [of h "[''a.png'', ''b.png'']"] by simp
  have b: "startswith ''[\"a.png\",\"b.png\"]'' ''['' \<and> endswith ''[\"a.png\",\"b.png\"]'' '']''"
    by (simp add: startswith_def endswith_def)
  have "normalize_images h (PStr ''[\"a.png\",\"b.png\"]'') =
      check_list_str (PList [PStr ''a.png'', PStr ''b.png''])"
    by (simp only: normalize_string strip_example if_P [OF b] j sum.case)
  also have "\<dots> = Inr [''a.png'', ''b.png'']"
    using check_list_str_names [of "[''a.png'', ''b.png'']"] by simp
  finally show "normalize_images h (PStr ''[\"a.png\",\"b.png\"]'') =
      normalize_images h (PList [PStr ''a.png'', PStr ''b.png''])"
    by (simp only: l)
  show "normalize_images h (PList [PStr ''a.png'', PStr ''b.png'']) = Inr [''a.png'', ''b.png'']"
    by (rule l)
next
  assume "\<forall>names. v \<noteq> PList (map PStr names)"
  then show "check_list_str v =
        Inl (TypeError [Text ''`images` must be a list[str] (or JSON string). Got: '',
                        TypeRepr (py_type v), Text '' '', ValueRepr v])"
    by (rule check_list_str_other)
next
  assume "v \<noteq> PNone \<and> \<not> is_str v"
  then show "normalize_images h v = check_list_str v"
    by (cases v) (simp_all add: normalize_images_def)
qed

theorem normalize_images_string_witness:
  "json_loads demo_host ''[\"a.png\",\"b.png\"]'' = Inr (PList [PStr ''a.png'', PStr ''b.png'']) \<and>
   normalize_images demo_host (PStr ''[\"a.png\",\"b.png\"]'') =
     normalize_images demo_host (PList [PStr ''a.png'', PStr ''b.png'']) \<and>
   normalize_images demo_host (PList [PStr ''a.png'', PStr ''b.png'']) = Inr [''a.png'', ''b.png''] \<and>
   normalize_images demo_host (PStr ''a.png '') = Inr [''a.png ''] \<and>
   PInt 3 \<noteq> PNone \<and> \<not> is_str (PInt 3) \<and>
   normalize_images demo_host (PInt 3) =
     Inl (TypeError [Text ''`images` must be a list[str] (or JSON string). Got: '',
                     TypeRepr IntT, Text '' '', ValueRepr (PInt 3)])"
proof -
  note t = normalize_images_string [where h = demo_host and v = "PInt 3"]
  note t1 = t [THEN conjunct1]
  note t2 = t [THEN conjunct2, THEN conjunct1]
  note t4 = t [THEN conjunct2, THEN conjunct2, THEN conjunct2, THEN conjunct1]
  note t5 = t [THEN conjunct2, THEN conjunct2, THEN conjunct2, THEN conjunct2]
  from t2 demo_json_example
  have e: "normalize_images demo_host (PStr ''[\"a.png\",\"b.png\"]'') =
        normalize_images demo_host (PList [PStr ''a.png'', PStr ''b.png'']) \<and>
      normalize_images demo_host (PList [PStr ''a.png'', PStr ''b.png'']) = Inr [''a.png'', ''b.png'']"
    by (rule mp)
  have s: "strip ''a.png '' = ''a.png''" by (simp add: strip_def isspace_def)
  have nb: "\<not> (startswith ''a.png'' ''['' \<and> endswith ''a.png'' '']'')"
    by (simp add: startswith_def)
  have w: "normalize_images demo_host (PStr ''a.png '') = Inr [''a.png '']"
    using t1 [of "''a.png ''"] by (simp only: s if_not_P [OF nb])
  have v: "PInt 3 \<noteq> PNone" "\<not> is_str (PInt 3)" by simp_all
  have nl: "\<forall>names. PInt 3 \<noteq> PList (map PStr names)" by simp
  have c: "check_list_str (PInt 3) =
     Inl (TypeError [Text ''`images` must be a list[str] (or JSON string). Got: '',
                     TypeRepr (py_type (PInt 3)), Text '' '', ValueRepr (PInt 3)])"
    using t4 nl by (rule mp)
  have "normalize_images demo_host (PInt 3) = check_list_str (PInt 3)"
    using t5 v by blast
  with c have ty: "normalize_images demo_host (PInt 3) =
     Inl (TypeError [Text ''`images` must be a list[str] (or JSON string). Got: '',
                     TypeRepr IntT, Text '' '', ValueRepr (PInt 3)])"
    by simp
  show ?thesis
    by (intro conjI; fact demo_json_example e [THEN conjunct1] e [THEN conjunct2] w v ty)
qed

text \<open>
  C6: for every decoded image of width \<open>w\<close> and height \<open>ht\<close> the converter returns a
  tensor of shape (1, ht, w, 3) whose element at row \<open>y\<close>, column \<open>x\<close>, channel \<open>k\<close> is the
  binary32 quotient of that channel value (0 to 255) by 255: it is within \<open>2^-25\<close> of the
  exact quotient, lies in [0, 1] and has a significand of at most 24 bits. A 2 by 2 image of one colour gives the three
  quotients of its colour, four times over, with batch dimension 1.
\<close>

theorem pil_to_comfy_tensor_image:
  assumes "img_size h img = (w, ht)"
  shows "\<exists>t. pil_to_comfy_tensor h (PilImage img) = Inr t \<and>
           shape t = [1, ht, w, 3] \<and> length (data t) = ht * w * 3 \<and>
           (\<forall>y<ht. \<forall>x<w. \<forall>k<3.
              channel (img_rgb h img x y) k \<le> 255 \<and>
              data t ! ((y * w + x) * 3 + k) = f32_div255 (channel (img_rgb h img x y) k) \<and>
              \<bar>data t ! ((y * w + x) * 3 + k) - of_nat (channel (img_rgb h img x y) k) / 255\<bar>
                 \<le> 1 / 2 ^ 25 \<and>
              0 \<le> data t ! ((y * w + x) * 3 + k) \<and> data t ! ((y * w + x) * 3 + k) \<le> 1 \<and>
              (\<exists>m e. m \<le> 2 ^ 24 \<and> e \<le> 32 \<and> data t ! ((y * w + x) * 3 + k) = of_nat m / 2 ^ e)) \<and>
           (w = 2 \<and> ht = 2 \<and> (\<forall>x y. img_rgb h img x y = (r, g, b)) \<longrightarrow>
              t = \<lparr> shape = [1, 2, 2, 3],
                    data = concat (replicate 4
                      [f32_div255 (unat r), f32_div255 (unat g), f32_div255 (unat b)]) \<rparr>)"
proof -
  let ?t = "image_tensor h img"
  have conv: "pil_to_comfy_tensor h (PilImage img) = Inr ?t"
    by (simp add: image_tensor_def)
  have sh: "shape ?t = [1, ht, w, 3]"
    by (simp add: shape_image_tensor assms)
  have len: "length (data ?t) = ht * w * 3"
    by (simp add: length_data_image_tensor assms)
  have vals: "channel (img_rgb h img x y) k \<le> 255 \<and>
      data ?t ! ((y * w + x) * 3 + k) = f32_div255 (channel (img_rgb h img x y) k) \<and>
      \<bar>data ?t ! ((y * w + x) * 3 + k) - of_nat (channel (img_rgb h img x y) k) / 255\<bar> \<le> 1 / 2 ^ 25 \<and>
      0 \<le> data ?t ! ((y * w + x) * 3 + k) \<and> data ?t ! ((y * w + x) * 3 + k) \<le> 1 \<and>
      (\<exists>m e. m \<le> 2 ^ 24 \<and> e \<le> 32 \<and> data ?t ! ((y * w + x) * 3 + k) = of_nat m / 2 ^ e)"
    if "y < ht" "x < w" "k < 3" for x y k
  proof -
    let ?c = "channel (img_rgb h img x y) k"
    have c: "?c \<le> 255" using that(3) by (rule channel_le)
    have v: "data ?t ! ((y * w + x) * 3 + k) = f32_div255 ?c"
      using data_image_tensor_nth [OF assms that] channels_nth [OF that(3)] by simp
    show ?thesis
      using c f32_div255_range [OF c] f32_div255_close [OF c] f32_div255_binary32 [OF c]
      by (simp only: v simp_thms)
  qed
  have solid: "?t = \<lparr> shape = [1, 2, 2, 3],
        data = concat (replicate 4 [f32_div255 (unat r), f32_div255 (unat g), f32_div255 (unat b)]) \<rparr>"
    if "w = 2" "ht = 2" "\<forall>x y. img_rgb h img x y = (r, g, b)"
  proof -
    have "[0..<2] = [0, Suc 0]" by (simp add: upt_rec)
    moreover have "replicate 4 x = [x, x, x, x]" for x :: "rat list"
      by (simp add: numeral_eq_Suc)
    ultimately show ?thesis
      using that assms
      by (simp add: image_tensor_def unsqueeze0_def rgb_array_def channels_def)
  qed
  show ?thesis
    using conv sh len vals solid by blast
qed

theorem pil_to_comfy_tensor_image_witness:
  "img_size demo_host ((2, 2), (255, 0, 0)) = (2, 2) \<and>
   pil_to_comfy_tensor demo_host (PilImage ((2, 2), (255, 0, 0))) =
     Inr \<lparr> shape = [1, 2, 2, 3], data = [1, 0, 0, 1, 0, 0, 1, 0, 0, 1, 0, 0] \<rparr>"
proof -
  have sz: "img_size demo_host ((2, 2), (255, 0, 0)) = (2, 2)"
    by (simp add: demo_host_def)
  have px: "\<forall>x y. img_rgb demo_host ((2, 2), (255, 0, 0)) x y = (255, 0, 0)"
    by (simp add: demo_host_def)
  have f: "f32_div255 255 = 1" "f32_div255 0 = 0"
    by (simp_all add: f32_div255_def rne_def compute_floorlog)
  have r: "replicate 4 x = [x, x, x, x]" for x :: "rat list"
    by (simp add: numeral_eq_Suc)
  from pil_to_comfy_tensor_image [OF sz, of 255 0 0] px
  have "pil_to_comfy_tensor demo_host (PilImage ((2, 2), (255, 0, 0))) =
     Inr \<lparr> shape = [1, 2, 2, 3],
           data = concat (replicate 4 [f32_div255 (unat (255 :: 8 word)),
                    f32_div255 (unat (0 :: 8 word)), f32_div255 (unat (0 :: 8 word))]) \<rparr>"
    by auto
  then show ?thesis using sz by (simp add: f r)
qed

text \<open>
  C7: when the normalized input is one filename that resolves and opens, the batch is
  the tensor of that image as it was opened, the list output is that same tensor alone,
  and neither depends on \<^verbatim>\<open>resize_to_first\<close> or \<^verbatim>\<open>resize_mode\<close>.
\<close>

theorem load_single_image:
  assumes "normalize_images h images = Inr [name]"
    and "resolve_path h name = Inr p"
    and "image_open h p = Inr img"
  shows "load h images resize_to_first resize_mode =
           Inr (image_tensor h img, [image_tensor h img], [name]) \<and>
         load h images resize_to_first' resize_mode' = load h images resize_to_first resize_mode"
  by (simp add: load_one [OF assms])

theorem load_single_image_witness:
  "normalize_images demo_host (PStr ''a.png'') = Inr [''a.png''] \<and>
   resolve_path demo_host ''a.png'' = Inr ''/annot/a.png'' \<and>
   image_open demo_host ''/annot/a.png'' = Inr ((2, 2), (255, 0, 0)) \<and>
   load demo_host (PStr ''a.png'') True ''nearest'' =
     Inr (image_tensor demo_host ((2, 2), (255, 0, 0)), [image_tensor demo_host ((2, 2), (255, 0, 0))],
          [''a.png'']) \<and>
   load demo_host (PStr ''a.png'') False ''bicubic'' = load demo_host (PStr ''a.png'') True ''nearest''"
proof -
  have n: "normalize_images demo_host (PStr ''a.png'') = Inr [''a.png'']"
    by (simp add: normalize_images_def check_list_str_def strip_def isspace_def startswith_def)
  have r: "resolve_path demo_host ''a.png'' = Inr ''/annot/a.png''"
    by (simp add: resolve_path_def demo_host_def demo_files_def)
  have i: "image_open demo_host ''/annot/a.png'' = Inr ((2, 2), (255, 0, 0))"
    by (simp add: demo_host_def demo_files_def)
  note t = load_single_image [OF n r i, of True "''nearest''" False "''bicubic''"]
  show ?thesis
    by (intro conjI; fact n r i t [THEN conjunct1] t [THEN conjunct2])
qed

text \<open>
  C8: for every image and target size, \<^verbatim>\<open>resize_pil\<close> maps the mode names nearest,
  bilinear, bicubic and lanczos to the filters of the same name, and every other mode
  string to the lanczos filter; it raises for no mode string.
\<close>

theorem resize_pil_modes:
  "resize_pil h img size_wh ''nearest'' = img_resize h img size_wh NEAREST \<and>
   resize_pil h img size_wh ''bilinear'' = img_resize h img size_wh BILINEAR \<and>
   resize_pil h img size_wh ''bicubic'' = img_resize h img size_wh BICUBIC \<and>
   resize_pil h img size_wh ''lanczos'' = img_resize h img size_wh LANCZOS \<and>
   (mode \<notin> {''nearest'', ''bilinear'', ''bicubic'', ''lanczos''} \<longrightarrow>
      resize_pil h img size_wh mode = img_resize h img size_wh LANCZOS)"
  by (simp add: resize_pil_def resample_table_def)

theorem resize_pil_modes_witness:
  "''cubic'' \<notin> {''nearest'', ''bilinear'', ''bicubic'', ''lanczos''} \<and>
   resize_pil demo_host ((2, 2), (1, 2, 3)) (3, 1) ''cubic'' =
     img_resize demo_host ((2, 2), (1, 2, 3)) (3, 1) LANCZOS"
  using resize_pil_modes [of demo_host "((2, 2), (1, 2, 3))" "(3, 1)" "''cubic''"]
  by simp

text \<open>
  C9: two runs on the same files that differ only in \<^verbatim>\<open>resize_to_first\<close> and
  \<^verbatim>\<open>resize_mode\<close>, and that both return, return the same per-image list, which holds
  the tensors of the images as opened, and the same names, which are the normalized
  input; only the batch can differ.
\<close>

theorem load_list_and_names_independent:
  assumes "load h images resize_to_first resize_mode = Inr (batch, image_list, names)"
    and "load h images resize_to_first' resize_mode' = Inr (batch', image_list', names')"
  shows "image_list' = image_list \<and> names' = names \<and>
         normalize_images h images = Inr names \<and>
         (\<exists>imgs. open_images h names = Inr imgs \<and> image_list = map (image_tensor h) imgs)"
proof -
  from load_returns [OF assms(1)] obtain imgs where
    n: "normalize_images h images = Inr names" and o: "open_images h names = Inr imgs"
    and l: "image_list = map (image_tensor h) imgs"
    by blast
  from load_returns [OF assms(2)] obtain imgs' where
    n': "normalize_images h images = Inr names'" and o': "open_images h names' = Inr imgs'"
    and l': "image_list' = map (image_tensor h) imgs'"
    by blast
  from n n' have names: "names' = names" by simp
  with o o' have "imgs' = imgs" by simp
  with l l' have "image_list' = image_list" by simp
  with names n o l show ?thesis by blast
qed

theorem load_list_and_names_independent_witness:
  "load demo_host (PList [PStr ''a.png'', PStr ''c.png'']) True ''lanczos'' =
     Inr (\<lparr> shape = [2, 2, 2, 3],
            data = concat (map data
              (map (\<lambda>img. image_tensor demo_host (resize_pil demo_host img (2, 2) ''lanczos''))
                 [((2, 2), (255, 0, 0)), ((2, 2), (1, 2, 3))])) \<rparr>,
          map (image_tensor demo_host) [((2, 2), (255, 0, 0)), ((2, 2), (1, 2, 3))],
          [''a.png'', ''c.png'']) \<and>
   load demo_host (PList [PStr ''a.png'', PStr ''c.png'']) False ''nearest'' =
     Inr (\<lparr> shape = [2, 2, 2, 3],
            data = concat (map data
              (map (image_tensor demo_host) [((2, 2), (255, 0, 0)), ((2, 2), (1, 2, 3))])) \<rparr>,
          map (image_tensor demo_host) [((2, 2), (255, 0, 0)), ((2, 2), (1, 2, 3))],
          [''a.png'', ''c.png'']) \<and>
   normalize_images demo_host (PList [PStr ''a.png'', PStr ''c.png'']) = Inr [''a.png'', ''c.png'']"
proof -
  note r1 = demo_load_a_c_resized [of "''lanczos''"]
  note r2 = demo_load_a_c_plain [of "''nearest''"]
  note t = load_list_and_names_independent [OF r1 r2]
  show ?thesis
    by (intro conjI; fact r1 r2 t [THEN conjunct2, THEN conjunct2, THEN conjunct1])
qed

text \<open>
  C10: when the loader returns, the names output is the normalized filename list, and
  for every index \<open>i\<close> of that list the \<open>i\<close>-th image is the one opened from the path
  the \<open>i\<close>-th filename resolves to, the \<open>i\<close>-th tensor of the list output is the tensor
  of that image, and the \<open>i\<close>-th entry of the batch is the tensor of that image too:
  resized to the first image's size when \<^verbatim>\<open>resize_to_first\<close> is set and there is more
  than one image, as opened otherwise.
\<close>

theorem load_preserves_order:
  assumes "load h images resize_to_first resize_mode = Inr (batch, image_list, names)"
  shows "normalize_images h images = Inr names \<and>
         (\<exists>imgs. open_images h names = Inr imgs \<and>
            length imgs = length names \<and> length image_list = length names \<and>
            (\<forall>i<length names.
               (\<exists>p. resolve_path h (names ! i) = Inr p \<and> image_open h p = Inr (imgs ! i)) \<and>
               image_list ! i = image_tensor h (imgs ! i) \<and>
               slice0 batch i =
                 (if resize_to_first \<and> length names \<noteq> 1
                  then image_tensor h (resize_pil h (imgs ! i) (img_size h (imgs ! 0)) resize_mode)
                  else image_tensor h (imgs ! i))))"
proof -
  from load_returns [OF assms] obtain imgs where
    n: "normalize_images h images = Inr names" and o: "open_images h names = Inr imgs"
    and l: "image_list = map (image_tensor h) imgs"
    and b: "build_batch h imgs image_list resize_to_first resize_mode = Inr batch"
    by blast
  have len: "length imgs = length names" using o by (rule open_images_length)
  have entry: "(\<exists>p. resolve_path h (names ! i) = Inr p \<and> image_open h p = Inr (imgs ! i)) \<and>
      image_list ! i = image_tensor h (imgs ! i) \<and>
      slice0 batch i =
        (if resize_to_first \<and> length names \<noteq> 1
         then image_tensor h (resize_pil h (imgs ! i) (img_size h (imgs ! 0)) resize_mode)
         else image_tensor h (imgs ! i))"
    if i: "i < length names" for i
  proof -
    have p: "\<exists>p. resolve_path h (names ! i) = Inr p \<and> image_open h p = Inr (imgs ! i)"
      using o i by (rule open_images_nth)
    have t: "image_list ! i = image_tensor h (imgs ! i)"
      using i len by (simp add: l)
    from i len obtain img0 rest where imgs: "imgs = img0 # rest" by (cases imgs) auto
    have s: "slice0 batch i =
        (if resize_to_first \<and> length names \<noteq> 1
         then image_tensor h (resize_pil h (imgs ! i) (img_size h (imgs ! 0)) resize_mode)
         else image_tensor h (imgs ! i))"
    proof (cases "length names = 1")
      case True
      with len imgs have one: "imgs = [img0]" and i0: "i = 0" using i by auto
      from b have "batch = image_tensor h img0"
        by (simp add: one l build_batch_single)
      then show ?thesis using True one i0 by (simp add: slice0_image_tensor)
    next
      case False
      with len imgs have rest: "rest \<noteq> []" by auto
      have n1: "length imgs \<noteq> 1" using False len by simp
      show ?thesis
      proof (cases resize_to_first)
        case True
        let ?ts = "map (\<lambda>img. image_tensor h (resize_pil h img (img_size h img0) resize_mode)) imgs"
        have cat: "torch_cat ?ts = Inr batch"
          using b True build_batch_resize_cat [OF imgs rest, of h image_list resize_mode] by simp
        have i': "i < length ?ts" using i len by simp
        have "slice0 batch i = ?ts ! i"
          using cat _ i' by (rule torch_cat_slice0) auto
        also have "\<dots> = image_tensor h (resize_pil h (imgs ! i) (img_size h img0) resize_mode)"
          using i' by (simp only: length_map nth_map)
        finally show ?thesis using True False imgs by simp
      next
        case F: False
        have cat: "torch_cat (map (image_tensor h) imgs) = Inr batch"
          using n1 b [unfolded l] F by (intro build_batch_no_resize_cat) simp_all
        have i': "i < length (map (image_tensor h) imgs)" using i len by simp
        have "slice0 batch i = map (image_tensor h) imgs ! i"
          using cat _ i' by (rule torch_cat_slice0) auto
        then show ?thesis using F i' by simp
      qed
    qed
    from p t s show ?thesis by (intro conjI)
  qed
  have "length image_list = length names" using len by (simp add: l)
  with n o len entry show ?thesis by blast
qed

theorem load_preserves_order_witness:
  "load demo_host (PList [PStr ''a.png'', PStr ''b.png'']) True ''lanczos'' =
     Inr (\<lparr> shape = [2, 2, 2, 3],
            data = concat (map data
              (map (\<lambda>img. image_tensor demo_host (resize_pil demo_host img (2, 2) ''lanczos''))
                 [((2, 2), (255, 0, 0)), ((3, 1), (0, 128, 255))])) \<rparr>,
          map (image_tensor demo_host) [((2, 2), (255, 0, 0)), ((3, 1), (0, 128, 255))],
          [''a.png'', ''b.png'']) \<and>
   normalize_images demo_host (PList [PStr ''a.png'', PStr ''b.png'']) = Inr [''a.png'', ''b.png''] \<and>
   resolve_path demo_host ''b.png'' = Inr ''/in/b.png'' \<and>
   image_open demo_host ''/in/b.png'' = Inr ((3, 1), (0, 128, 255)) \<and>
   map (image_tensor demo_host) [((2, 2), (255, 0, 0)), ((3, 1), (0, 128, 255))] ! 1 =
     image_tensor demo_host ((3, 1), (0, 128, 255)) \<and>
   slice0 \<lparr> shape = [2, 2, 2, 3],
            data = concat (map data
              (map (\<lambda>img. image_tensor demo_host (resize_pil demo_host img (2, 2) ''lanczos''))
                 [((2, 2), (255, 0, 0)), ((3, 1), (0, 128, 255))])) \<rparr> 1 =
     image_tensor demo_host ((2, 2), (0, 128, 255))"
proof -
  let ?A = "((2, 2), (255, 0, 0)) :: solid"
  let ?B = "((3, 1), (0, 128, 255)) :: solid"
  let ?batch = "\<lparr> shape = [2, 2, 2, 3],
            data = concat (map data
              (map (\<lambda>img. image_tensor demo_host (resize_pil demo_host img (2, 2) ''lanczos''))
                 [?A, ?B])) \<rparr>"
  note run = demo_load_a_b_resized [of "''lanczos''"]
  note t = load_preserves_order [OF run]
  have n: "normalize_images demo_host (PList [PStr ''a.png'', PStr ''b.png'']) = Inr [''a.png'', ''b.png'']"
    using t by (rule conjunct1)
  from t [THEN conjunct2] obtain imgs where
    o: "open_images demo_host [''a.png'', ''b.png''] = Inr imgs"
    and e: "\<forall>i<length [''a.png'', ''b.png''].
               (\<exists>p. resolve_path demo_host ([''a.png'', ''b.png''] ! i) = Inr p \<and>
                    image_open demo_host p = Inr (imgs ! i)) \<and>
               map (image_tensor demo_host) [?A, ?B] ! i = image_tensor demo_host (imgs ! i) \<and>
               slice0 ?batch i =
                 (if True \<and> length [''a.png'', ''b.png''] \<noteq> 1
                  then image_tensor demo_host
                         (resize_pil demo_host (imgs ! i) (img_size demo_host (imgs ! 0)) ''lanczos'')
                  else image_tensor demo_host (imgs ! i))"
    by blast
  from o demo_open_a_b have imgs: "imgs = [?A, ?B]" by simp
  have one: "(1::nat) < length [''a.png'', ''b.png'']" by simp
  from e [rule_format, OF one]
  have l1: "map (image_tensor demo_host) [?A, ?B] ! 1 = image_tensor demo_host (imgs ! 1)"
    and s1: "slice0 ?batch 1 =
                 (if True \<and> length [''a.png'', ''b.png''] \<noteq> 1
                  then image_tensor demo_host
                         (resize_pil demo_host (imgs ! 1) (img_size demo_host (imgs ! 0)) ''lanczos'')
                  else image_tensor demo_host (imgs ! 1))"
    by blast+
  have nth1: "imgs ! 1 = ?B" and nth0: "imgs ! 0 = ?A" by (simp_all add: imgs)
  have sz: "img_size demo_host ?A = (2, 2)" by (simp add: demo_host_def)
  have rs: "resize_pil demo_host ?B (2, 2) ''lanczos'' = ((2, 2), (0, 128, 255))"
    by (simp add: resize_pil_def demo_host_def)
  have l: "map (image_tensor demo_host) [?A, ?B] ! 1 = image_tensor demo_host ?B"
    using l1 by (simp only: nth1)
  have c: "True \<and> length [''a.png'', ''b.png''] \<noteq> 1" by simp
  have s: "slice0 ?batch 1 = image_tensor demo_host ((2, 2), (0, 128, 255))"
    using s1 by (simp only: if_P [OF c] nth1 nth0 sz rs)
  have r: "resolve_path demo_host ''b.png'' = Inr ''/in/b.png''"
    by (simp add: resolve_path_def demo_host_def demo_files_def)
  have i: "image_open demo_host ''/in/b.png'' = Inr ?B"
    by (simp add: demo_host_def demo_files_def)
  show ?thesis
    by (intro conjI; fact run n r i l s)
qed

end
